theory Spec2Isabelle
  imports Main "HOL-Library.AList" "HOL-Library.Char_ord" "HOL-Library.List_Lexorder"
    "HOL-Library.Code_Target_Nat"
begin

section \<open>Values of the host language\<close>

text \<open>
  The program is JavaScript. A JavaScript string is modelled as a \<^typ>\<open>string\<close>, a list
  of 8-bit characters read as ASCII code units: case conversion acts on the letters
  \<open>A\<close>..\<open>Z\<close> and \<open>a\<close>..\<open>z\<close>, the line terminators of a regular expression's \<open>.\<close> are line
  feed and carriage return. A plain object (a dictionary whose keys are enumerated in
  insertion order) is an association list; a property that may be absent, \<open>null\<close> or
  \<open>undefined\<close> is an \<^typ>\<open>'a option\<close>. An exception is a value of type \<open>exn\<close>, and a
  function that may throw returns \<open>exn + 'a\<close>.
\<close>

datatype exn = Error string | TypeError string | SyntaxError string

datatype jsval = Null | Undefined | Str string

definition is_upper :: "char \<Rightarrow> bool" where
  "is_upper c = (CHR ''A'' \<le> c \<and> c \<le> CHR ''Z'')"

definition is_lower :: "char \<Rightarrow> bool" where
  "is_lower c = (CHR ''a'' \<le> c \<and> c \<le> CHR ''z'')"

definition is_digit :: "char \<Rightarrow> bool" where
  "is_digit c = (CHR ''0'' \<le> c \<and> c \<le> CHR ''9'')"

definition is_word :: "char \<Rightarrow> bool" where
  "is_word c = (is_upper c \<or> is_lower c \<or> is_digit c \<or> c = CHR ''_'')"

definition is_space :: "char \<Rightarrow> bool" where
  "is_space c = (c \<in> set [CHR '' '', CHR 0x09, CHR 0x0A, CHR 0x0B, CHR 0x0C, CHR 0x0D])"

definition lower_char :: "char \<Rightarrow> char" where
  "lower_char c = (if is_upper c then char_of (of_char c + (32::nat)) else c)"

definition upper_char :: "char \<Rightarrow> char" where
  "upper_char c = (if is_lower c then char_of (of_char c - (32::nat)) else c)"

definition toLowerCase :: "string \<Rightarrow> string" where
  "toLowerCase s = map lower_char s"

definition toUpperCase :: "string \<Rightarrow> string" where
  "toUpperCase s = map upper_char s"

definition trim :: "string \<Rightarrow> string" where
  "trim s = rev (dropWhile is_space (rev (dropWhile is_space s)))"

definition starts_with :: "string \<Rightarrow> string \<Rightarrow> bool" where
  "starts_with p s = (take (length p) s = p)"

definition ends_with :: "string \<Rightarrow> string \<Rightarrow> bool" where
  "ends_with p s = (drop (length s - length p) s = p \<and> length p \<le> length s)"

text \<open>\<open>xs.join(sep)\<close>.\<close>

fun join :: "string \<Rightarrow> string list \<Rightarrow> string" where
  "join sep [] = []"
| "join sep [x] = x"
| "join sep (x # y # ys) = x @ sep @ join sep (y # ys)"

text \<open>\<open>s.split(c)\<close> for a one-character separator: never empty, \<open>''''.split(c)\<close> is \<open>['''']\<close>.\<close>

fun split :: "char \<Rightarrow> string \<Rightarrow> string list" where
  "split c [] = [[]]"
| "split c (x # xs) =
     (if x = c then [] # split c xs
      else (case split c xs of [] \<Rightarrow> [[x]] | p # ps \<Rightarrow> (x # p) # ps))"

text \<open>\<open>String(n)\<close> and \<open>+s\<close> on the decimal numerals of natural numbers.\<close>

definition digit_char :: "nat \<Rightarrow> char" where
  "digit_char d = char_of (48 + d)"

function show_nat_acc :: "nat \<Rightarrow> string \<Rightarrow> string" where
  "show_nat_acc n acc =
     (if n < 10 then digit_char n # acc
      else show_nat_acc (n div 10) (digit_char (n mod 10) # acc))"
  by pat_completeness auto
termination
  by (relation "measure fst") auto

declare show_nat_acc.simps [simp del]

definition show_nat :: "nat \<Rightarrow> string" where
  "show_nat n = show_nat_acc n []"

definition digit_val :: "char \<Rightarrow> nat" where
  "digit_val c = of_char c - 48"

definition read_nat :: "string \<Rightarrow> nat" where
  "read_nat s = foldl (\<lambda>n c. 10 * n + digit_val c) 0 s"

text \<open>Strings compared as \<open>a < b\<close> compares them: code unit by code unit.\<close>

fun str_less :: "string \<Rightarrow> string \<Rightarrow> bool" where
  "str_less [] [] = False"
| "str_less [] (y # ys) = True"
| "str_less (x # xs) [] = False"
| "str_less (x # xs) (y # ys) = (x < y \<or> (x = y \<and> str_less xs ys))"

subsection \<open>Arrays and objects\<close>

text \<open>
  \<open>Array.prototype.sort(cmp)\<close> is stable; with a comparator that is a total preorder its
  result is the one of a stable insertion sort.
\<close>

fun js_insert :: "('a \<Rightarrow> 'a \<Rightarrow> int) \<Rightarrow> 'a \<Rightarrow> 'a list \<Rightarrow> 'a list" where
  "js_insert cmp x [] = [x]"
| "js_insert cmp x (y # ys) = (if cmp x y \<le> 0 then x # y # ys else y # js_insert cmp x ys)"

definition js_sort :: "('a \<Rightarrow> 'a \<Rightarrow> int) \<Rightarrow> 'a list \<Rightarrow> 'a list" where
  "js_sort cmp xs = foldr (js_insert cmp) xs []"

text \<open>\<open>xs.indexOf(x)\<close> and \<open>xs.findIndex(p)\<close>: \<open>-1\<close> when there is none.\<close>

fun findIndex_from :: "int \<Rightarrow> ('a \<Rightarrow> bool) \<Rightarrow> 'a list \<Rightarrow> int" where
  "findIndex_from i p [] = -1"
| "findIndex_from i p (x # xs) = (if p x then i else findIndex_from (i + 1) p xs)"

definition findIndex :: "('a \<Rightarrow> bool) \<Rightarrow> 'a list \<Rightarrow> int" where
  "findIndex p xs = findIndex_from 0 p xs"

definition indexOf :: "'a list \<Rightarrow> 'a \<Rightarrow> int" where
  "indexOf xs x = findIndex (\<lambda>y. y = x) xs"

text \<open>
  The own keys of an object are enumerated with the array indices first, in ascending
  numeric order, then the other string keys in insertion order. An array index is the
  canonical numeral of a number below \<open>2^32 - 1\<close>.
\<close>

definition is_array_index :: "string \<Rightarrow> bool" where
  "is_array_index k = (k \<noteq> [] \<and> list_all is_digit k \<and> show_nat (read_nat k) = k
     \<and> read_nat k < 4294967295)"

definition own_order :: "(string \<times> 'a) list \<Rightarrow> (string \<times> 'a) list" where
  "own_order kvs =
     js_sort (\<lambda>a b. int (read_nat (fst a)) - int (read_nat (fst b)))
       (filter (\<lambda>kv. is_array_index (fst kv)) kvs)
     @ filter (\<lambda>kv. \<not> is_array_index (fst kv)) kvs"

text \<open>
  An object made by a literal, by \<open>Object.fromEntries\<close> or by \<open>JSON.parse\<close> inherits from
  \<open>Object.prototype\<close>. Reading \<open>obj[key]\<close> gives the own property of that name; where the
  object has none and \<open>key\<close> is one of the names below, it gives the inherited value, a
  function (for \<open>__proto__\<close> the prototype object): a value that is neither \<open>null\<close> nor
  \<open>undefined\<close>, is truthy, has no method \<open>push\<close> and is not iterable. Otherwise it gives
  \<open>undefined\<close>.
\<close>

definition Object_prototype :: "string list" where
  "Object_prototype = [''constructor'', ''__defineGetter__'', ''__defineSetter__'',
     ''hasOwnProperty'', ''__lookupGetter__'', ''__lookupSetter__'', ''isPrototypeOf'',
     ''propertyIsEnumerable'', ''toString'', ''valueOf'', ''__proto__'', ''toLocaleString'']"

datatype 'a property = Own 'a | Inherited | Absent

definition property_of :: "(string \<times> 'a) list \<Rightarrow> string \<Rightarrow> 'a property" where
  "property_of obj key =
     (case map_of obj key of
        Some v \<Rightarrow> Own v
      | None \<Rightarrow> if key \<in> set Object_prototype then Inherited else Absent)"

section \<open>Regular expressions\<close>

text \<open>
  The fragment of JavaScript's regular expressions that the program and its
  \<open>semver\<close> dependency use, with the backtracking order of the language: a matcher
  returns the states reachable after a match, the preferred one first. \<open>Grp n r\<close> is the
  n-th capturing group.
\<close>

datatype cls = CDigit | CWord | CSpace | CDot | COneOf string | CRange char char
  | CUnion cls cls | CNot cls

fun cls_mem :: "cls \<Rightarrow> char \<Rightarrow> bool" where
  "cls_mem CDigit c = is_digit c"
| "cls_mem CWord c = is_word c"
| "cls_mem CSpace c = is_space c"
| "cls_mem CDot c = (c \<noteq> CHR 0x0A \<and> c \<noteq> CHR 0x0D)"
| "cls_mem (COneOf cs) c = (c \<in> set cs)"
| "cls_mem (CRange a b) c = (a \<le> c \<and> c \<le> b)"
| "cls_mem (CUnion x y) c = (cls_mem x c \<or> cls_mem y c)"
| "cls_mem (CNot x) c = (\<not> cls_mem x c)"

datatype re = Lit string | Cls cls | Seq re re | Alt re re | Opt re | Star re
  | Rep nat nat re | Grp nat re | Bol | Eol | WordB

record mstate =
  prev :: "char option"
  rest :: string
  caps :: "(nat \<times> string) list"

definition advance :: "nat \<Rightarrow> mstate \<Rightarrow> mstate" where
  "advance n s = (if n = 0 then s
     else s\<lparr>prev := Some (rest s ! (n - 1)), rest := drop n (rest s)\<rparr>)"

definition set_cap :: "nat \<Rightarrow> mstate \<Rightarrow> mstate \<Rightarrow> mstate" where
  "set_cap k s s' =
     s'\<lparr>caps := (k, take (length (rest s) - length (rest s')) (rest s)) # caps s'\<rparr>"

definition at_boundary :: "mstate \<Rightarrow> bool" where
  "at_boundary s =
     ((case prev s of None \<Rightarrow> False | Some c \<Rightarrow> is_word c)
      \<noteq> (case rest s of [] \<Rightarrow> False | c # _ \<Rightarrow> is_word c))"

fun rep_bound :: "re \<Rightarrow> nat" where
  "rep_bound (Rep m n a) = n"
| "rep_bound r = 0"

function ends :: "re \<Rightarrow> mstate \<Rightarrow> mstate list" where
  "ends (Lit cs) s = (if starts_with cs (rest s) then [advance (length cs) s] else [])"
| "ends (Cls c) s =
     (case rest s of [] \<Rightarrow> [] | x # _ \<Rightarrow> if cls_mem c x then [advance 1 s] else [])"
| "ends (Seq a b) s = concat (map (\<lambda>s'. ends b s') (ends a s))"
| "ends (Alt a b) s = ends a s @ ends b s"
| "ends (Opt a) s = ends a s @ [s]"
| "ends (Star a) s =
     concat (map (\<lambda>s'. ends (Star a) s')
       (filter (\<lambda>s'. length (rest s') < length (rest s)) (ends a s))) @ [s]"
| "ends (Rep m n a) s =
     (if n = 0 then [s]
      else concat (map (\<lambda>s'. ends (Rep (m - 1) (n - 1) a) s') (ends a s))
           @ (if m = 0 then [s] else []))"
| "ends (Grp k a) s = map (set_cap k s) (ends a s)"
| "ends Bol s = (if prev s = None then [s] else [])"
| "ends Eol s = (if rest s = [] then [s] else [])"
| "ends WordB s = (if at_boundary s then [s] else [])"
  by pat_completeness auto
termination
  by (relation "measures [\<lambda>(r, s). size r, \<lambda>(r, s). rep_bound r, \<lambda>(r, s). length (rest s)]") auto

declare ends.simps [simp del]

text \<open>\<open>str.match(r)\<close> without the global flag: the leftmost match, \<open>null\<close> when none.\<close>

fun search :: "re \<Rightarrow> char option \<Rightarrow> string \<Rightarrow> mstate option" where
  "search r p [] =
     (case ends r \<lparr>prev = p, rest = [], caps = []\<rparr> of [] \<Rightarrow> None | m # _ \<Rightarrow> Some m)"
| "search r p (x # xs) =
     (case ends r \<lparr>prev = p, rest = x # xs, caps = []\<rparr> of
        [] \<Rightarrow> search r (Some x) xs
      | m # _ \<Rightarrow> Some m)"

definition re_match :: "re \<Rightarrow> string \<Rightarrow> (nat \<rightharpoonup> string) option" where
  "re_match r str = map_option (\<lambda>m. map_of (caps m)) (search r None str)"

definition re_test :: "re \<Rightarrow> string \<Rightarrow> bool" where
  "re_test r str = (search r None str \<noteq> None)"

fun seqs :: "re list \<Rightarrow> re" where
  "seqs [] = Lit []"
| "seqs [r] = r"
| "seqs (r # rs) = Seq r (seqs rs)"

fun alts :: "re list \<Rightarrow> re" where
  "alts [] = Lit []"
| "alts [r] = r"
| "alts (r # rs) = Alt r (alts rs)"

subsection \<open>Loops with a body that may throw\<close>

fun mapE :: "('a \<Rightarrow> exn + 'b) \<Rightarrow> 'a list \<Rightarrow> exn + 'b list" where
  "mapE f [] = Inr []"
| "mapE f (x # xs) =
     (case f x of
        Inl e \<Rightarrow> Inl e
      | Inr y \<Rightarrow> (case mapE f xs of Inl e \<Rightarrow> Inl e | Inr ys \<Rightarrow> Inr (y # ys)))"

fun findE :: "('a \<Rightarrow> exn + bool) \<Rightarrow> 'a list \<Rightarrow> exn + 'a option" where
  "findE p [] = Inr None"
| "findE p (x # xs) =
     (case p x of Inl e \<Rightarrow> Inl e | Inr b \<Rightarrow> if b then Inr (Some x) else findE p xs)"

fun findIndexE_from :: "int \<Rightarrow> ('a \<Rightarrow> exn + bool) \<Rightarrow> 'a list \<Rightarrow> exn + int" where
  "findIndexE_from i p [] = Inr (-1)"
| "findIndexE_from i p (x # xs) =
     (case p x of Inl e \<Rightarrow> Inl e | Inr b \<Rightarrow> if b then Inr i else findIndexE_from (i + 1) p xs)"

fun insertE :: "('a \<Rightarrow> 'a \<Rightarrow> exn + int) \<Rightarrow> 'a \<Rightarrow> 'a list \<Rightarrow> exn + 'a list" where
  "insertE cmp x [] = Inr [x]"
| "insertE cmp x (y # ys) =
     (case cmp x y of
        Inl e \<Rightarrow> Inl e
      | Inr c \<Rightarrow>
          if c \<le> 0 then Inr (x # y # ys)
          else (case insertE cmp x ys of Inl e \<Rightarrow> Inl e | Inr zs \<Rightarrow> Inr (y # zs)))"

fun foldE :: "('s \<Rightarrow> 'a \<Rightarrow> exn + 's) \<Rightarrow> 'a list \<Rightarrow> 's \<Rightarrow> exn + 's" where
  "foldE f [] s = Inr s"
| "foldE f (x # xs) s = (case f s x of Inl e \<Rightarrow> Inl e | Inr s' \<Rightarrow> foldE f xs s')"

fun sortE :: "('a \<Rightarrow> 'a \<Rightarrow> exn + int) \<Rightarrow> 'a list \<Rightarrow> exn + 'a list" where
  "sortE cmp [] = Inr []"
| "sortE cmp (x # xs) =
     (case sortE cmp xs of Inl e \<Rightarrow> Inl e | Inr ys \<Rightarrow> insertE cmp x ys)"

section \<open>The semver dependency\<close>

text \<open>
  The program calls \<open>semver.coerce\<close>, \<open>semver.valid\<close>, \<open>semver.compare\<close>, \<open>semver.gte\<close>
  and \<open>semver.eq\<close> of the \<open>semver\<close> package (node-semver 7.6, the first release whose
  \<open>coerce\<close> reads the \<open>includePrerelease\<close> option). The package is not part of the
  repository; this section is a model of these five functions after the package's
  regular expressions and its class \<open>SemVer\<close>. Numeric identifiers are natural numbers;
  the package's conversion of numerals above \<open>Number.MAX_SAFE_INTEGER\<close> to floating
  point in \<open>compareIdentifiers\<close> is not modelled.
\<close>

datatype ident = INum nat | IStr string

record SemVer =
  major :: nat
  minor :: nat
  patch :: nat
  prerelease :: "ident list"
  build :: "string list"

definition MAX_LENGTH :: nat where "MAX_LENGTH = 256"
definition MAX_SAFE_INTEGER :: nat where "MAX_SAFE_INTEGER = 9007199254740991"
definition MAX_SAFE_COMPONENT_LENGTH :: nat where "MAX_SAFE_COMPONENT_LENGTH = 16"
definition MAX_SAFE_BUILD_LENGTH :: nat where "MAX_SAFE_BUILD_LENGTH = MAX_LENGTH - 6"

definition LETTERDASH :: cls where
  "LETTERDASH = CUnion (CRange CHR ''a'' CHR ''z'') (CUnion (CRange CHR ''A'' CHR ''Z'') (COneOf ''-''))"

definition LETTERDASHNUMBER :: cls where
  "LETTERDASHNUMBER = CUnion (CRange CHR ''a'' CHR ''z'')
     (CUnion (CRange CHR ''A'' CHR ''Z'') (CUnion (CRange CHR ''0'' CHR ''9'') (COneOf ''-'')))"

text \<open>\<open>0|[1-9]\d*\<close>\<close>
definition NUMERICIDENTIFIER :: re where
  "NUMERICIDENTIFIER =
     Alt (Lit ''0'') (Seq (Cls (CRange CHR ''1'' CHR ''9'')) (Rep 0 MAX_LENGTH (Cls CDigit)))"

text \<open>\<open>\d*[a-zA-Z-][a-zA-Z0-9-]*\<close>\<close>
definition NONNUMERICIDENTIFIER :: re where
  "NONNUMERICIDENTIFIER =
     seqs [Rep 0 MAX_LENGTH (Cls CDigit), Cls LETTERDASH,
           Rep 0 MAX_SAFE_BUILD_LENGTH (Cls LETTERDASHNUMBER)]"

text \<open>\<open>(NUMERICIDENTIFIER)\.(NUMERICIDENTIFIER)\.(NUMERICIDENTIFIER)\<close>\<close>
definition MAINVERSION :: re where
  "MAINVERSION = seqs [Grp 1 NUMERICIDENTIFIER, Lit ''.'', Grp 2 NUMERICIDENTIFIER, Lit ''.'',
     Grp 3 NUMERICIDENTIFIER]"

definition PRERELEASEIDENTIFIER :: re where
  "PRERELEASEIDENTIFIER = Alt NUMERICIDENTIFIER NONNUMERICIDENTIFIER"

text \<open>\<open>(?:-(PRERELEASEIDENTIFIER(?:\.PRERELEASEIDENTIFIER)*))\<close>, its group numbered \<open>n\<close>.\<close>
definition PRERELEASE :: "nat \<Rightarrow> re" where
  "PRERELEASE n = Seq (Lit ''-'')
     (Grp n (Seq PRERELEASEIDENTIFIER (Star (Seq (Lit ''.'') PRERELEASEIDENTIFIER))))"

definition BUILDIDENTIFIER :: re where
  "BUILDIDENTIFIER = Rep 1 MAX_SAFE_BUILD_LENGTH (Cls LETTERDASHNUMBER)"

text \<open>\<open>(?:\+(BUILDIDENTIFIER(?:\.BUILDIDENTIFIER)*))\<close>, its group numbered \<open>n\<close>.\<close>
definition BUILD :: "nat \<Rightarrow> re" where
  "BUILD n = Seq (Lit ''+'')
     (Grp n (Seq BUILDIDENTIFIER (Star (Seq (Lit ''.'') BUILDIDENTIFIER))))"

text \<open>\<open>^v?MAINVERSION PRERELEASE? BUILD?$\<close>\<close>
definition FULL :: re where
  "FULL = seqs [Bol, Opt (Lit ''v''), MAINVERSION, Opt (PRERELEASE 4), Opt (BUILD 5), Eol]"

text \<open>\<open>(^|[^\d])(\d{1,16})(?:\.(\d{1,16}))?(?:\.(\d{1,16}))?\<close>\<close>
definition COERCEPLAIN :: re where
  "COERCEPLAIN = seqs [Grp 1 (Alt Bol (Cls (CNot CDigit))),
     Grp 2 (Rep 1 MAX_SAFE_COMPONENT_LENGTH (Cls CDigit)),
     Opt (Seq (Lit ''.'') (Grp 3 (Rep 1 MAX_SAFE_COMPONENT_LENGTH (Cls CDigit)))),
     Opt (Seq (Lit ''.'') (Grp 4 (Rep 1 MAX_SAFE_COMPONENT_LENGTH (Cls CDigit))))]"

text \<open>\<open>COERCEPLAIN(?:$|[^\d])\<close>\<close>
definition COERCE :: re where
  "COERCE = Seq COERCEPLAIN (Alt Eol (Cls (CNot CDigit)))"

text \<open>\<open>COERCEPLAIN(?:PRERELEASE)?(?:BUILD)?(?:$|[^\d])\<close>\<close>
definition COERCEFULL :: re where
  "COERCEFULL = seqs [COERCEPLAIN, Opt (PRERELEASE 5), Opt (BUILD 6),
     Alt Eol (Cls (CNot CDigit))]"

definition show_ident :: "ident \<Rightarrow> string" where
  "show_ident i = (case i of INum n \<Rightarrow> show_nat n | IStr s \<Rightarrow> s)"

text \<open>The property \<open>version\<close> of a \<open>SemVer\<close>, which \<open>toString()\<close> returns too.\<close>

definition version :: "SemVer \<Rightarrow> string" where
  "version v = show_nat (major v) @ ''.'' @ show_nat (minor v) @ ''.'' @ show_nat (patch v)
     @ (if prerelease v = [] then [] else ''-'' @ join ''.'' (map show_ident (prerelease v)))"

definition numberify :: "string \<Rightarrow> ident" where
  "numberify i = (if i \<noteq> [] \<and> list_all is_digit i \<and> read_nat i < MAX_SAFE_INTEGER
     then INum (read_nat i) else IStr i)"

text \<open>\<open>new SemVer(version)\<close> in strict mode; \<open>Inl\<close> is the \<open>TypeError\<close> it throws.\<close>

definition SemVer_new :: "string \<Rightarrow> exn + SemVer" where
  "SemVer_new v =
     (if length v > MAX_LENGTH then Inl (TypeError ''version is longer than 256 characters'')
      else case re_match FULL (trim v) of
        None \<Rightarrow> Inl (TypeError ''Invalid Version'')
      | Some m \<Rightarrow>
          (case (m 1, m 2, m 3) of
             (Some a, Some b, Some c) \<Rightarrow>
               if read_nat a > MAX_SAFE_INTEGER then Inl (TypeError ''Invalid major version'')
               else if read_nat b > MAX_SAFE_INTEGER then Inl (TypeError ''Invalid minor version'')
               else if read_nat c > MAX_SAFE_INTEGER then Inl (TypeError ''Invalid patch version'')
               else Inr \<lparr>major = read_nat a, minor = read_nat b, patch = read_nat c,
                 prerelease = (case m 4 of None \<Rightarrow> [] | Some p \<Rightarrow> map numberify (split CHR ''.'' p)),
                 build = (case m 5 of None \<Rightarrow> [] | Some p \<Rightarrow> split CHR ''.'' p)\<rparr>
           | _ \<Rightarrow> Inl (TypeError ''Invalid Version'')))"

text \<open>\<open>parse\<close> returns \<open>null\<close> where the constructor throws.\<close>

definition semver_parse :: "string \<Rightarrow> SemVer option" where
  "semver_parse v = (case SemVer_new v of Inl e \<Rightarrow> None | Inr sv \<Rightarrow> Some sv)"

definition semver_valid :: "string \<Rightarrow> string option" where
  "semver_valid v = map_option version (semver_parse v)"

text \<open>\<open>semver.coerce(version, { includePrerelease })\<close>, left to right.\<close>

definition semver_coerce :: "bool \<Rightarrow> string \<Rightarrow> SemVer option" where
  "semver_coerce includePrerelease v =
     (case re_match (if includePrerelease then COERCEFULL else COERCE) v of
        None \<Rightarrow> None
      | Some m \<Rightarrow>
          (case m 2 of
             None \<Rightarrow> None
           | Some ma \<Rightarrow>
               semver_parse (ma @ ''.'' @ (case m 3 of None \<Rightarrow> ''0'' | Some x \<Rightarrow> x)
                 @ ''.'' @ (case m 4 of None \<Rightarrow> ''0'' | Some x \<Rightarrow> x)
                 @ (case m 5 of None \<Rightarrow> [] | Some x \<Rightarrow> if includePrerelease then ''-'' @ x else [])
                 @ (case m 6 of None \<Rightarrow> [] | Some x \<Rightarrow> if includePrerelease then ''+'' @ x else []))))"

definition cmp_nat :: "nat \<Rightarrow> nat \<Rightarrow> int" where
  "cmp_nat a b = (if a = b then 0 else if a < b then -1 else 1)"

definition compareIdentifiers :: "ident \<Rightarrow> ident \<Rightarrow> int" where
  "compareIdentifiers a b =
     (case (a, b) of
        (INum x, INum y) \<Rightarrow> cmp_nat x y
      | (INum x, IStr t) \<Rightarrow> if list_all is_digit t \<and> t \<noteq> [] then cmp_nat x (read_nat t) else -1
      | (IStr s, INum y) \<Rightarrow> if list_all is_digit s \<and> s \<noteq> [] then cmp_nat (read_nat s) y else 1
      | (IStr s, IStr t) \<Rightarrow>
          if list_all is_digit s \<and> s \<noteq> [] \<and> list_all is_digit t \<and> t \<noteq> []
            then cmp_nat (read_nat s) (read_nat t)
          else if s = t then 0
          else if list_all is_digit s \<and> s \<noteq> [] then -1
          else if list_all is_digit t \<and> t \<noteq> [] then 1
          else if str_less s t then -1 else 1)"

definition compareMain :: "SemVer \<Rightarrow> SemVer \<Rightarrow> int" where
  "compareMain a b =
     (if cmp_nat (major a) (major b) \<noteq> 0 then cmp_nat (major a) (major b)
      else if cmp_nat (minor a) (minor b) \<noteq> 0 then cmp_nat (minor a) (minor b)
      else cmp_nat (patch a) (patch b))"

fun comparePre_loop :: "ident list \<Rightarrow> ident list \<Rightarrow> int" where
  "comparePre_loop [] [] = 0"
| "comparePre_loop (x # xs) [] = 1"
| "comparePre_loop [] (y # ys) = -1"
| "comparePre_loop (x # xs) (y # ys) =
     (if x = y then comparePre_loop xs ys else compareIdentifiers x y)"

definition comparePre :: "SemVer \<Rightarrow> SemVer \<Rightarrow> int" where
  "comparePre a b =
     (if prerelease a \<noteq> [] \<and> prerelease b = [] then -1
      else if prerelease a = [] \<and> prerelease b \<noteq> [] then 1
      else if prerelease a = [] \<and> prerelease b = [] then 0
      else comparePre_loop (prerelease a) (prerelease b))"

definition SemVer_compare :: "SemVer \<Rightarrow> SemVer \<Rightarrow> int" where
  "SemVer_compare a b =
     (if version b = version a then 0
      else if compareMain a b \<noteq> 0 then compareMain a b else comparePre a b)"

text \<open>\<open>semver.compare(a, b)\<close> is \<open>new SemVer(a).compare(new SemVer(b))\<close>.\<close>

definition semver_compare :: "string \<Rightarrow> string \<Rightarrow> exn + int" where
  "semver_compare a b =
     (case SemVer_new a of
        Inl e \<Rightarrow> Inl e
      | Inr x \<Rightarrow> (case SemVer_new b of Inl e \<Rightarrow> Inl e | Inr y \<Rightarrow> Inr (SemVer_compare x y)))"

definition semver_gte :: "string \<Rightarrow> string \<Rightarrow> exn + bool" where
  "semver_gte a b = (case semver_compare a b of Inl e \<Rightarrow> Inl e | Inr c \<Rightarrow> Inr (c \<ge> 0))"

definition semver_eq :: "string \<Rightarrow> string \<Rightarrow> exn + bool" where
  "semver_eq a b = (case semver_compare a b of Inl e \<Rightarrow> Inl e | Inr c \<Rightarrow> Inr (c = 0))"

section \<open>Version Locator\<close>

text \<open>
  \<open>findPreviousVersion(versions, versionToFind, type)\<close>. The arguments are typed: an
  array of strings, a string and a string, so of the first check only the test of \<open>type\<close>
  remains. \<open>semver.coerce(v).version\<close> reads a property of \<open>null\<close> when \<open>v\<close> does not
  coerce, which throws a \<open>TypeError\<close> inside \<open>map\<close>, before \<open>filter(Boolean)\<close> runs.
  \<open>semver.eq(v, coercedVersion)\<close> parses \<open>coercedVersion.version\<close> again, the options
  of the object differing from its own.
\<close>

definition prefixed :: "bool \<Rightarrow> jsval \<Rightarrow> jsval" where
  "prefixed prefixV match =
     (case match of Str m \<Rightarrow> if prefixV \<and> m \<noteq> [] then Str (''v'' @ m) else Str m | x \<Rightarrow> x)"

definition nth_js :: "string list \<Rightarrow> int \<Rightarrow> jsval" where
  "nth_js xs i = (if 0 \<le> i \<and> i < int (length xs) then Str (xs ! nat i) else Undefined)"

definition or_null :: "string option \<Rightarrow> jsval" where
  "or_null m = (case m of None \<Rightarrow> Null | Some v \<Rightarrow> if v = [] then Null else Str v)"

text \<open>The callback of \<open>versions.map\<close>: \<open>v => semver.coerce(v, { includePrerelease: true }).version\<close>.\<close>

definition coerced_version :: "string \<Rightarrow> exn + string" where
  "coerced_version v =
     (case semver_coerce True v of
        None \<Rightarrow> Inl (TypeError ''Cannot read properties of null'')
      | Some sv \<Rightarrow> Inr (version sv))"

definition findPreviousVersion :: "string list \<Rightarrow> string \<Rightarrow> string \<Rightarrow> exn + jsval" where
  "findPreviousVersion versions versionToFind type0 =
     (let type = toUpperCase type0 in
      if type \<notin> set [''MAJOR'', ''MINOR'', ''PATCH''] then Inl (Error ''Invalid input parameters'')
      else case semver_coerce True versionToFind of
        None \<Rightarrow> Inl (Error ''Invalid version string'')
      | Some coercedVersion \<Rightarrow>
          (case mapE coerced_version versions of
             Inl e \<Rightarrow> Inl e
           | Inr coerced \<Rightarrow>
               (case sortE semver_compare (filter (\<lambda>v. v \<noteq> []) coerced) of
                  Inl e \<Rightarrow> Inl e
                | Inr sortedVersions \<Rightarrow>
                    let prefixV = starts_with ''v'' versionToFind in
                    if type = ''MAJOR'' then
                      (let range = show_nat (major coercedVersion) @ ''.0.0'' in
                       case findE (\<lambda>v. semver_gte v range) sortedVersions of
                         Inl e \<Rightarrow> Inl e
                       | Inr m \<Rightarrow> Inr (prefixed prefixV (or_null m)))
                    else if type = ''MINOR'' then
                      (let range = show_nat (major coercedVersion) @ ''.''
                             @ show_nat (minor coercedVersion) @ ''.0'' in
                       case findE (\<lambda>v. semver_gte v range) sortedVersions of
                         Inl e \<Rightarrow> Inl e
                       | Inr m \<Rightarrow> Inr (prefixed prefixV (or_null m)))
                    else
                      (case findIndexE_from 0 (\<lambda>v. semver_eq v (version coercedVersion))
                              sortedVersions of
                         Inl e \<Rightarrow> Inl e
                       | Inr index \<Rightarrow>
                           Inr (prefixed prefixV
                             (if index \<noteq> 0 then nth_js sortedVersions (index - 1) else Null))))))"

section \<open>Classifier\<close>

text \<open>
  \<open>contains(expr, str)\<close> tests \<open>\bexpr\b\<close> and \<open>startsWith(expr, str)\<close> tests \<open>^expr\b\<close>
  on the lower-cased string. The expressions are written here as syntax trees; none of
  them has an alternation at its top level.
\<close>

definition contains :: "re \<Rightarrow> string \<Rightarrow> bool" where
  "contains expr str = re_test (seqs [WordB, expr, WordB]) (toLowerCase str)"

definition startsWith :: "re \<Rightarrow> string \<Rightarrow> bool" where
  "startsWith expr str = re_test (seqs [Bol, expr, WordB]) (toLowerCase str)"

record MessageTypeResult =
  type :: string
  subType :: "string option"

text \<open>
  The cases of a \<open>switch (true)\<close>: \<open>S e\<close> is \<open>s(e)\<close>, \<open>C e\<close> is \<open>c(e)\<close>, \<open>SC e1 e2\<close> is
  \<open>sc(e1, e2)\<close> and \<open>Valid\<close> is \<open>!!semver.valid(message)\<close>.
\<close>

datatype test = S re | C re | SC re re | Valid

fun holds :: "string \<Rightarrow> test \<Rightarrow> bool" where
  "holds message (S e) = startsWith e message"
| "holds message (C e) = contains e message"
| "holds message (SC e1 e2) = (startsWith e1 message \<or> contains e2 message)"
| "holds message Valid = (case semver_valid message of None \<Rightarrow> False | Some v \<Rightarrow> v \<noteq> [])"

definition verbs :: re where
  "verbs = alts [Lit ''add'', Lit ''correct'', Lit ''create'', Lit ''improve'', Lit ''include'',
     Lit ''update'']"

definition suffix :: re where
  "suffix = alts [Lit ''s'', Lit ''ed'', Lit ''ing'']"

definition e_suffix :: re where
  "e_suffix = alts [Lit ''e'', Lit ''es'', Lit ''ed'', Lit ''ing'']"

definition y_suffix :: re where
  "y_suffix = alts [Lit ''y'', Lit ''ies'', Lit ''ied'', Lit ''ying'']"

text \<open>\<open>w(sfx)?\<close>, \<open>ws?\<close>, \<open>a.?b\<close> and \<open>a.*b\<close>.\<close>

definition stem :: "string \<Rightarrow> re \<Rightarrow> re" where
  "stem w sfx = Seq (Lit w) (Opt sfx)"

definition plural :: "string \<Rightarrow> re" where
  "plural w = Seq (Lit w) (Opt (Lit ''s''))"

definition any1 :: "re \<Rightarrow> re \<Rightarrow> re" where
  "any1 a b = seqs [a, Opt (Cls CDot), b]"

definition anys :: "re \<Rightarrow> re \<Rightarrow> re" where
  "anys a b = seqs [a, Star (Cls CDot), b]"

text \<open>The ten cases of Feat (Add) and the five of Feat (Remove), which the function
  lists twice: under \<open>forceType === 'feat'\<close> and in the cascade.\<close>

definition feat_add :: "test list" where
  "feat_add = [S (stem ''add'' suffix), S (stem ''allow'' suffix), S (stem ''creat'' e_suffix),
     S (stem ''enabl'' e_suffix), S (stem ''implement'' suffix), S (stem ''includ'' e_suffix),
     S (stem ''incorporat'' e_suffix), S (stem ''install'' suffix), S (stem ''introduc'' e_suffix),
     S (stem ''support'' suffix)]"

definition feat_remove :: "test list" where
  "feat_remove = [S (stem ''delet'' e_suffix), S (stem ''deprecat'' e_suffix),
     S (stem ''disabl'' e_suffix), S (stem ''remov'' e_suffix), S (stem ''uninstall'' suffix)]"

definition feat_change :: "test list" where
  "feat_change = [S (stem ''adjust'' suffix), S (stem ''append'' suffix), S (stem ''chang'' e_suffix),
     S (stem ''extend'' suffix), S (stem ''hid'' e_suffix), S (stem ''mak'' e_suffix),
     S (stem ''modif'' y_suffix), S (stem ''tweak'' suffix)]"

definition plain :: "string \<Rightarrow> MessageTypeResult" where
  "plain t = \<lparr>type = t, subType = None\<rparr>"

definition feat :: "string \<Rightarrow> MessageTypeResult" where
  "feat st = \<lparr>type = ''feat'', subType = Some st\<rparr>"

text \<open>The second \<open>switch (true)\<close>, case by case, with the result each group returns.\<close>

definition cascade :: "(test list \<times> MessageTypeResult) list" where
  "cascade = [
     \<comment> \<open>Merge\<close>
     ([S (Lit ''merge'')], plain ''merge''),
     \<comment> \<open>Docs\<close>
     ([C (Lit ''documentation''), C (anys verbs (plural ''doc'')),
       C (seqs [Lit ''read'', Opt (Lit '' ''), Lit ''me'']), C (plural ''docblock''),
       C (anys verbs (plural ''comment'')), C (Lit ''license''),
       C (any1 (Lit ''change'') (Lit ''log''))], plain ''docs''),
     \<comment> \<open>CI\<close>
     ([C (Lit ''jenkins''), C (Lit ''travis''), C (Lit ''teamcity'')], plain ''ci''),
     \<comment> \<open>Fix\<close>
     ([C (Lit ''bug fix''), S (stem ''revert'' suffix), S (Lit ''typo''), S (Lit ''prevent'')],
      plain ''fix''),
     \<comment> \<open>Chore\<close>
     ([C (plural ''version bump''), S (stem ''bump'' suffix), S (stem ''ignor'' e_suffix),
       S (stem ''cleanup'' suffix), S (stem ''renam'' e_suffix), S (stem ''upgrad'' e_suffix),
       S (anys (Lit ''init'') (Lit ''commit'')), S (Lit ''init'')], plain ''chore''),
     \<comment> \<open>Perf\<close>
     ([S (stem ''cach'' e_suffix), S (Lit ''optimize'')], plain ''perf''),
     \<comment> \<open>Test\<close>
     ([SC (stem ''test'' suffix) (plural ''test case''),
       C (anys (alts [Lit ''fix'', verbs, Lit ''run'', Lit ''remove'']) (plural ''test'')),
       C (plural ''unit test''),
       C (seqs [plural ''test'', Lit '' pass'', Opt (Lit ''ed'')]),
       C (any1 (Lit ''php'') (Lit ''unit'')), C (Lit ''behat''), C (Lit ''pest''), C (Lit ''jest''),
       C (Lit ''mocha''), C (Lit ''jasmine''), C (Lit ''karma''), C (Lit ''vitest'')], plain ''test''),
     \<comment> \<open>Style\<close>
     ([C (Lit ''prettier''), C (Lit ''eslint''), C (Lit ''jshint''), C (Lit ''jslint''),
       C (Lit ''tslint''), C (Lit ''beautifier''), C (Lit ''stylelint''), C (Lit ''linting''),
       S (Lit ''lint'')], plain ''style''),
     \<comment> \<open>Build\<close>
     ([Valid, S (Lit ''semver''),
       SC (stem ''build'' suffix)
          (anys (Lit ''dist'')
             (alts [Lit ''build'', Lit ''folder'', Lit ''dir'', Lit ''directory'', plural ''file''])),
       C (anys (Lit ''build'') (alts [Lit ''status'', plural ''step''])),
       C (anys (Lit ''update'') (Lit ''build'')), C (plural ''distribution''),
       C (anys verbs (Lit ''dist'')), C (plural ''peer''),
       C (any1 (Lit ''peer'') (Lit ''dependency'')),
       C (any1 (Lit ''package'') (alts [Lit ''lock'', Lit ''json''])),
       C (any1 (Lit ''composer'') (alts [Lit ''lock'', Lit ''json''])),
       C (any1 (Lit ''lock'') (Lit ''file'')), S (Lit ''version''), C (Lit ''bower''),
       C (Lit ''brotli''), C (Lit ''browserify''), C (Lit ''esbuild''), C (Lit ''grunt''),
       C (Lit ''gulp''), C (Lit ''maven''),
       C (seqs [Lit ''node'', Opt (Alt (Lit '' '') (Cls CDot)), Lit ''js'']),
       C (plural ''node version''), C (Lit ''npm''), C (Lit ''pnpm''), C (Lit ''parcel''),
       C (Lit ''rollup''), C (Lit ''snowpack''), C (Lit ''tsup''), C (Lit ''vite''),
       C (Lit ''webpack''), C (Lit ''yarn'')], plain ''build''),
     \<comment> \<open>Refactor\<close>
     ([S (stem ''convert'' suffix), S (stem ''improv'' e_suffix), S (stem ''mov'' e_suffix),
       S (stem ''refactor'' suffix), S (stem ''replac'' e_suffix), S (stem ''simplif'' y_suffix),
       S (stem ''switch'' suffix), S (Lit ''tidy'')], plain ''refactor''),
     \<comment> \<open>Fix 2\<close>
     ([SC (Lit ''fix'') (Seq (Lit ''fix'') e_suffix),
       S (stem ''correct'' (alts [suffix, Lit ''ion'', Lit ''ions''])),
       C (any1 (Lit ''console'') (Lit ''log''))], plain ''fix''),
     \<comment> \<open>Chore 2\<close>
     ([S (stem ''updat'' e_suffix)], plain ''chore''),
     \<comment> \<open>Feat (Add), Feat (Change), Feat (Remove)\<close>
     (feat_add, feat ''add''),
     (feat_change, feat ''change''),
     (feat_remove, feat ''remove''),
     \<comment> \<open>Build 2\<close>
     ([C (Lit ''build'')], plain ''build''),
     \<comment> \<open>Chore 3\<close>
     ([C (plural ''version''), C (Lit ''upgrade'')], plain ''chore''),
     \<comment> \<open>Test 2\<close>
     ([C (plural ''test'')], plain ''test''),
     \<comment> \<open>Fix 3\<close>
     ([C (Lit ''fix'')], plain ''fix''),
     \<comment> \<open>Refactor 2\<close>
     ([C (Lit ''clean'')], plain ''refactor'')]"

text \<open>
  \<open>getMessageType(message, { defaultType, forceType })\<close>: the two options are
  arguments, \<open>None\<close> for \<open>false\<close> and \<open>undefined\<close>. The message is
  \<open>commit.subject ?? commit.header\<close> at the only call, \<open>None\<close> when both are \<open>null\<close>:
  the first test then calls \<open>toLowerCase\<close> on it and throws.
\<close>

definition getMessageType ::
  "string option \<Rightarrow> MessageTypeResult option \<Rightarrow> string option \<Rightarrow> exn + MessageTypeResult" where
  "getMessageType message defaultType forceType =
     (case message of
        None \<Rightarrow> Inl (TypeError ''Cannot read properties of null'')
      | Some m \<Rightarrow>
          if forceType = Some ''feat'' then
            (if list_ex (holds m) feat_add then Inr (feat ''add'')
             else if list_ex (holds m) feat_remove then Inr (feat ''remove'')
             else Inr (feat ''change''))
          else
            (case find (\<lambda>g. list_ex (holds m) (fst g)) cascade of
               Some g \<Rightarrow> Inr (snd g)
             | None \<Rightarrow>
                 (case defaultType of
                    Some d \<Rightarrow> Inr d
                  | None \<Rightarrow> Inr (plain ''other''))))"

section \<open>Commit Normalizer and Commit Grouper\<close>

text \<open>
  A commit as the header parser returns it and as the program extends it (\<open>type\<close>,
  \<open>subType\<close>, \<open>orig\<close>, \<open>raw\<close>). The lists \<open>mentions\<close> and \<open>references\<close>, which the program
  never reads, are left out.
\<close>

record commit_note =
  title :: string
  "text" :: string

record revert =
  header :: "string option"

record commit =
  type :: "string option"
  subType :: "string option"
  scope :: "string option"
  subject :: "string option"
  header :: "string option"
  body :: "string option"
  footer :: "string option"
  breaking :: "string option"
  "notes" :: "commit_note list"
  merge :: "string option"
  revert :: "revert option"
  orig :: "string option"
  raw :: "string option"

type_synonym parser = "string \<Rightarrow> exn + commit"

text \<open>A string, \<open>null\<close> or \<open>undefined\<close> in a condition, and in a template literal.\<close>

definition truthy :: "string option \<Rightarrow> bool" where
  "truthy v = (case v of None \<Rightarrow> False | Some s \<Rightarrow> s \<noteq> [])"

definition js_string :: "string option \<Rightarrow> string" where
  "js_string v = (case v of None \<Rightarrow> ''undefined'' | Some s \<Rightarrow> s)"

definition validTypes :: "string list" where
  "validTypes = [''feat'', ''fix'', ''chore'', ''perf'', ''style'', ''refactor'', ''ci'', ''build'',
     ''test'', ''docs'']"

text \<open>\<open>parseCommitMessage(commit, parser, { defaultType, validTypes })\<close>.\<close>

definition parseCommitMessage ::
  "commit \<Rightarrow> parser \<Rightarrow> MessageTypeResult option \<Rightarrow> string list \<Rightarrow> exn + commit" where
  "parseCommitMessage c parse defaultType validTypes' =
     (if truthy (merge c) then Inr (c\<lparr>commit.type := Some ''merge''\<rparr>)
      else if revert c \<noteq> None then Inr (c\<lparr>commit.type := Some ''revert''\<rparr>)
      else
        case getMessageType (case subject c of Some s \<Rightarrow> Some s | None \<Rightarrow> commit.header c)
               defaultType (commit.type c) of
          Inl e \<Rightarrow> Inl e
        | Inr data \<Rightarrow>
            let type' = (case commit.type c of Some t \<Rightarrow> t | None \<Rightarrow> MessageTypeResult.type data);
                subType' = (if type' = ''feat''
                            then Some (if truthy (MessageTypeResult.subType data)
                                       then js_string (MessageTypeResult.subType data)
                                       else ''change'')
                            else None)
            in if type' \<in> set validTypes'
               then Inr (c\<lparr>commit.type := Some type', commit.subType := subType'\<rparr>)
               else (case parse (type' @ '': '' @ js_string (orig c)) of
                       Inl e \<Rightarrow> Inl e
                     | Inr c' \<Rightarrow> Inr (c'\<lparr>commit.type := Some type', commit.subType := subType'\<rparr>)))"

text \<open>\<open>str.replace(pat, rep)\<close> with a string pattern: the first occurrence.\<close>

fun replace_first :: "string \<Rightarrow> string \<Rightarrow> string \<Rightarrow> string" where
  "replace_first pat rep [] = (if pat = [] then rep else [])"
| "replace_first pat rep (x # xs) =
     (if starts_with pat (x # xs) then rep @ drop (length pat) (x # xs)
      else x # replace_first pat rep xs)"

text \<open>
  The body of the loop of \<open>getCommits\<close> for one non-empty message, up to the commit it
  pushes. The options of the inner call are \<open>{ defaultType, validTypes }\<close> with the
  module's constant \<open>validTypes\<close>, not \<open>options.validTypes\<close>.
\<close>

definition process_message ::
  "parser \<Rightarrow> MessageTypeResult option \<Rightarrow> string list \<Rightarrow> string \<Rightarrow> exn + commit" where
  "process_message parse defaultType options_validTypes message =
     (case parse message of
        Inl e \<Rightarrow> Inl e
      | Inr c0 \<Rightarrow>
          (case (if truthy (commit.type c0) \<and> js_string (commit.type c0) \<notin> set options_validTypes
                 then (case parse (replace_first '': '' '' '' message) of
                         Inl e \<Rightarrow> Inl e
                       | Inr c1 \<Rightarrow> Inr (c1, None, replace_first '': '' '' '' message))
                 else Inr (c0, commit.type c0, message)) of
             Inl e \<Rightarrow> Inl e
           | Inr (c, type', orig') \<Rightarrow>
               (case parseCommitMessage
                       (c\<lparr>commit.type := type', orig := Some orig', raw := Some message\<rparr>)
                       parse defaultType validTypes of
                  Inl e \<Rightarrow> Inl e
                | Inr c' \<Rightarrow> Inr (c'\<lparr>orig := Some orig', raw := Some message\<rparr>))))"

definition group_key :: "commit \<Rightarrow> string" where
  "group_key c = (if truthy (commit.subType c)
     then js_string (commit.type c) @ ''_'' @ js_string (commit.subType c)
     else js_string (commit.type c))"

text \<open>
  \<open>groups[key] ??= []; groups[key].push(commit)\<close> on the object \<open>groups\<close>, which starts as
  \<open>{}\<close>: for a key that the object inherits, \<open>??=\<close> assigns nothing and the call of \<open>push\<close>
  throws.
\<close>

definition bucket ::
  "(string \<times> commit list) list \<Rightarrow> commit \<Rightarrow> exn + (string \<times> commit list) list" where
  "bucket groups c =
     (case property_of groups (group_key c) of
        Own cs \<Rightarrow> Inr (AList.update (group_key c) (cs @ [c]) groups)
      | Absent \<Rightarrow> Inr (AList.update (group_key c) [c] groups)
      | Inherited \<Rightarrow> Inl (TypeError ''groups[key].push is not a function''))"

text \<open>
  The loop inside \<open>try\<close>: the state is \<open>(commits, groups)\<close>, and the exception that ends
  the loop, if any, comes with the state it leaves behind. \<open>commits.push(commit)\<close> comes
  before the two statements on \<open>groups\<close>, so a commit whose key makes them throw is in
  \<open>commits\<close> and in no group.
\<close>

fun commits_loop ::
  "parser \<Rightarrow> MessageTypeResult option \<Rightarrow> string list \<Rightarrow> string list
   \<Rightarrow> commit list \<times> (string \<times> commit list) list
   \<Rightarrow> (commit list \<times> (string \<times> commit list) list) \<times> exn option" where
  "commits_loop parse dt vt [] st = (st, None)"
| "commits_loop parse dt vt (message # messages) st =
     (if message = [] then commits_loop parse dt vt messages st
      else case process_message parse dt vt message of
        Inl e \<Rightarrow> (st, Some e)
      | Inr c \<Rightarrow>
          (case bucket (snd st) c of
             Inl e \<Rightarrow> ((fst st @ [c], snd st), Some e)
           | Inr groups \<Rightarrow> commits_loop parse dt vt messages (fst st @ [c], groups)))"

text \<open>
  \<open>getCommits(messages, parser, { defaultType, validTypes })\<close>. \<open>indexOf\<close> returns \<open>-1\<close>,
  never \<open>null\<close> or \<open>undefined\<close>, so \<open>?? Infinity\<close> never applies. The \<open>catch\<close> logs the
  exception and the function returns what the loop has built.
\<close>

definition getCommits ::
  "string list \<Rightarrow> parser \<Rightarrow> MessageTypeResult option \<Rightarrow> string list
   \<Rightarrow> commit list \<times> (string \<times> commit list) list" where
  "getCommits messages parse defaultType options_validTypes =
     (case commits_loop parse defaultType options_validTypes messages ([], []) of
        ((commits, groups), Some e) \<Rightarrow> (commits, own_order groups)
      | ((commits, groups), None) \<Rightarrow>
          (commits,
           own_order (js_sort (\<lambda>a b. indexOf options_validTypes (fst a)
                                      - indexOf options_validTypes (fst b))
                        (own_order groups))))"

text \<open>
  The parser is an object of the library \<open>conventional-commits-parser\<close>, which is not part
  of the program: every function takes it as the parameter \<open>parse\<close>, and the properties
  that quantify over it hold for every parser. For calls on concrete messages, here is a
  parser for one-line messages, after the options the action gives the library: it
  throws on a blank message, strips the line breaks around the message, reads the first
  line with the header pattern
  \<open>^(\w*)(?:\(([^)]*)\))?(!)?:\s(.*)$\<close> for \<open>type\<close>, \<open>scope\<close>, \<open>breaking\<close> and \<open>subject\<close>, and
  adds the note \<open>BREAKING CHANGE\<close> with the subject where the line matches the breaking
  header pattern \<open>^(\w*)(?:\(([^)]*)\))?!:\s(.*)$\<close>. The library's steps for a merge line, a
  revert, the body and the footer are not part of it: \<open>merge\<close>, \<open>revert\<close>, \<open>body\<close> and
  \<open>footer\<close> are \<open>null\<close>, as they are for a one-line message that is neither a merge nor a
  revert.
\<close>

definition headerPattern :: re where
  "headerPattern = seqs [Bol, Grp 1 (Star (Cls CWord)),
     Opt (seqs [Lit ''('', Grp 2 (Star (Cls (CNot (COneOf '')'')))), Lit '')'']),
     Opt (Grp 3 (Lit ''!'')), Lit '':'', Cls CSpace, Grp 4 (Star (Cls CDot)), Eol]"

definition breakingHeaderPattern :: re where
  "breakingHeaderPattern = seqs [Bol, Grp 1 (Star (Cls CWord)),
     Opt (seqs [Lit ''('', Grp 2 (Star (Cls (CNot (COneOf '')'')))), Lit '')'']),
     Lit ''!:'', Cls CSpace, Grp 3 (Star (Cls CDot)), Eol]"

definition trimNewLines :: "string \<Rightarrow> string" where
  "trimNewLines s =
     rev (dropWhile (\<lambda>c. c = CHR 0x0A \<or> c = CHR 0x0D)
       (rev (dropWhile (\<lambda>c. c = CHR 0x0A \<or> c = CHR 0x0D) s)))"

definition or_none :: "string option \<Rightarrow> string option" where
  "or_none v = (if truthy v then v else None)"

definition headerParser :: parser where
  "headerParser rawmsg =
     (if trim rawmsg = [] then Inl (TypeError ''Expected a raw commit'')
      else
        let h = takeWhile (\<lambda>c. c \<noteq> CHR 0x0A) (trimNewLines rawmsg);
            m = (case re_match headerPattern h of None \<Rightarrow> Map.empty | Some m \<Rightarrow> m)
        in Inr \<lparr>type = or_none (m 1), subType = None, scope = or_none (m 2),
             subject = or_none (m 4), header = Some h, body = None, footer = None,
             breaking = or_none (m 3),
             notes = (case re_match breakingHeaderPattern h of
                        None \<Rightarrow> []
                      | Some b \<Rightarrow> [\<lparr>title = ''BREAKING CHANGE'', text = js_string (b 3)\<rparr>]),
             merge = None, revert = None, orig = None, raw = None\<rparr>)"

section \<open>Notice Extractor\<close>

text \<open>
  \<open>check\<close> is a string or a \<open>RegExp\<close> object. The constructor \<open>new RegExp(string)\<close> of the
  host, which compiles a pattern or throws a \<open>SyntaxError\<close>, is the parameter
  \<open>new_RegExp\<close>. The callback of \<open>filter\<close> assigns to \<open>check\<close>, so the loop carries it
  from note to note; a \<open>RegExp\<close> object has no method \<open>startsWith\<close>, and calling it throws.
\<close>

datatype check = CStr string | CRe re

fun notes_filter ::
  "(string \<Rightarrow> exn + re) \<Rightarrow> check \<Rightarrow> commit_note list \<Rightarrow> exn + commit_note list" where
  "notes_filter new_RegExp chk [] = Inr []"
| "notes_filter new_RegExp chk (n # ns) =
     (case chk of
        CRe r \<Rightarrow> Inl (TypeError ''check.startsWith is not a function'')
      | CStr c \<Rightarrow>
          if starts_with ''/'' c \<and> ends_with ''/'' c then
            (case new_RegExp c of
               Inl e \<Rightarrow> Inl e
             | Inr r \<Rightarrow>
                 (case notes_filter new_RegExp (CRe r) ns of
                    Inl e \<Rightarrow> Inl e
                  | Inr ms \<Rightarrow> Inr (if re_test r (title n) then n # ms else ms)))
          else
            (case notes_filter new_RegExp (CStr c) ns of
               Inl e \<Rightarrow> Inl e
             | Inr ms \<Rightarrow> Inr (if title n = c then n # ms else ms)))"

definition getNotices ::
  "(string \<Rightarrow> exn + re) \<Rightarrow> commit \<Rightarrow> string \<Rightarrow> check option \<Rightarrow> string \<Rightarrow> exn + string list" where
  "getNotices new_RegExp c label check breakingLabel =
     (case notes_filter new_RegExp (case check of None \<Rightarrow> CStr label | Some k \<Rightarrow> k) (notes c) of
        Inl e \<Rightarrow> Inl e
      | Inr ns \<Rightarrow>
          if map text ns \<noteq> [] then Inr (map text ns)
          else if label = breakingLabel \<and> truthy (breaking c) then Inr [js_string (breaking c)]
          else Inr [])"

definition default_breakingLabel :: string where
  "default_breakingLabel = ''BREAKING CHANGE''"

section \<open>Release Aggregator\<close>

text \<open>
  A release; the objects the tests pass to \<open>groupReleases\<close> lack some of the
  properties, so each one is optional.
\<close>

record release =
  tag :: "string option"
  name :: "string option"
  date :: "string option"
  description :: "string option"
  header :: "string option"
  footer :: "string option"
  messages :: "string list option"
  commits :: "(string \<times> commit list) list option"

text \<open>A group while the first loop fills it: \<open>name\<close> and \<open>date\<close> are arrays there.\<close>

record group =
  gtag :: string
  gname :: "string list"
  gdate :: "string list"
  gmessages :: "string list"
  gcommits :: "(string \<times> commit list) list"

text \<open>
  \<open>Object.entries(obj ?? {})\<close> of an object that the caller passes: the object is given by
  its entries in the order of enumeration.
\<close>

definition entries :: "('k \<times> 'v) list option \<Rightarrow> ('k \<times> 'v) list" where
  "entries ob = (case ob of None \<Rightarrow> [] | Some kvs \<Rightarrow> kvs)"

text \<open>The key of the group of a release, \<open>None\<close> where the loop says \<open>continue\<close>.\<close>

definition group_of :: "string \<Rightarrow> string \<Rightarrow> string option" where
  "group_of groupBy v =
     (let parts = split CHR ''.''
            (case semver_coerce False v of None \<Rightarrow> [] | Some sv \<Rightarrow> version sv)
      in if length parts \<noteq> 3 then None
         else Some (join ''.''
           (if toLowerCase groupBy = ''major'' then butlast (butlast parts) else butlast parts)))"

text \<open>
  \<open>acc[type] ??= []; acc[type].push(...commits)\<close> on the object \<open>commits\<close> of a group, which
  starts as \<open>{}\<close>: for a type key that the object inherits the call of \<open>push\<close> throws.
\<close>

definition push_commits ::
  "(string \<times> commit list) list \<Rightarrow> string \<times> commit list
   \<Rightarrow> exn + (string \<times> commit list) list" where
  "push_commits acc tc =
     (case property_of acc (fst tc) of
        Own cs \<Rightarrow> Inr (AList.update (fst tc) (cs @ snd tc) acc)
      | Absent \<Rightarrow> Inr (AList.update (fst tc) (snd tc) acc)
      | Inherited \<Rightarrow> Inl (TypeError ''groups[group].commits[type].push is not a function''))"

text \<open>
  One turn of the first loop. The key of a group is made of digits and dots, so it is
  never a name that \<open>groups\<close> inherits.
\<close>

definition group_step ::
  "string \<Rightarrow> (string \<times> group) list \<Rightarrow> string \<times> release \<Rightarrow> exn + (string \<times> group) list" where
  "group_step groupBy groups vr =
     (case group_of groupBy (fst vr) of
        None \<Rightarrow> Inr groups
      | Some g \<Rightarrow>
          let cur = (case map_of groups g of
                       None \<Rightarrow> \<lparr>gtag = g, gname = [], gdate = [], gmessages = [], gcommits = []\<rparr>
                     | Some x \<Rightarrow> x);
              r = snd vr
          in case foldE push_commits (entries (commits r)) (gcommits cur) of
               Inl e \<Rightarrow> Inl e
             | Inr cm \<Rightarrow>
                 Inr (AList.update g
                   (cur\<lparr>gname := gname cur @ (if truthy (name r) then [js_string (name r)] else []),
                        gdate := gdate cur @ (if truthy (date r) then [js_string (date r)] else []),
                        gmessages := gmessages cur @ (case messages r of None \<Rightarrow> [] | Some ms \<Rightarrow> ms),
                        gcommits := cm\<rparr>)
                   groups))"

definition finish_group :: "group \<Rightarrow> release" where
  "finish_group g =
     \<lparr>tag = Some (gtag g),
      name = (if join '', '' (gname g) = [] then None else Some (join '', '' (gname g))),
      date = Some (join '', '' (gdate g)),
      description = None, header = None, footer = None,
      messages = Some (gmessages g),
      commits = Some (own_order (gcommits g))\<rparr>"

text \<open>\<open>groupReleases(releases, groupBy)\<close>, the releases in the order of \<open>Object.entries\<close>.\<close>

definition groupReleases ::
  "(string \<times> release) list \<Rightarrow> string \<Rightarrow> exn + (string \<times> release) list" where
  "groupReleases releases groupBy =
     (case foldE (group_step groupBy) releases [] of
        Inl e \<Rightarrow> Inl e
      | Inr groups \<Rightarrow> Inr (own_order (map (\<lambda>kg. (fst kg, finish_group (snd kg))) groups)))"

section \<open>Changelog Renderer\<close>

definition replace_char :: "char \<Rightarrow> string \<Rightarrow> string \<Rightarrow> string" where
  "replace_char c rep str = concat (map (\<lambda>x. if x = c then rep else [x]) str)"

definition escapeHTML :: "string \<Rightarrow> string" where
  "escapeHTML str =
     replace_char (CHR 0x27) ''&#39;''
       (replace_char (CHR 0x22) ''&quot;''
         (replace_char CHR ''>'' ''&gt;''
           (replace_char CHR ''<'' ''&lt;''
             (replace_char CHR ''&'' ''&amp;'' str))))"

text \<open>
  The options object and its \<open>notice\<close> object live in a store, since the function
  assigns to their properties: an options object holds a reference to its notice
  object. \<open>next_ref\<close> is the next unused reference.
\<close>

record notice_options =
  keys :: "(string \<times> check) list option"
  all :: "bool option"
  inFooter :: "bool option"

record options =
  coerce :: "bool option"
  onlyFirst :: "bool option"
  onlyBody :: "bool option"
  types :: "(string \<times> string) list option"
  notice :: "nat option"

record heap =
  options_at :: "nat \<rightharpoonup> options"
  notice_at :: "nat \<rightharpoonup> notice_options"
  next_ref :: nat

definition default_types :: "(string \<times> string) list" where
  "default_types = [(''feat_add'', ''Added''), (''feat_change'', ''Changed''),
     (''feat_remove'', ''Removed''), (''fix'', ''Fixed'')]"

text \<open>\<open>{ 'BREAKING CHANGES': /^BREAKING[ -]CHANGE$/ }\<close>\<close>

definition default_keys :: "(string \<times> check) list" where
  "default_keys = [(''BREAKING CHANGES'',
     CRe (seqs [Bol, Lit ''BREAKING'', Cls (COneOf '' -''), Lit ''CHANGE'', Eol]))]"

text \<open>\<open>x ??= d\<close> on a property.\<close>

definition nullish_assign :: "'a option \<Rightarrow> 'a \<Rightarrow> 'a option" where
  "nullish_assign x d = (case x of None \<Rightarrow> Some d | Some v \<Rightarrow> Some v)"

definition upd_options :: "nat \<Rightarrow> (options \<Rightarrow> options) \<Rightarrow> heap \<Rightarrow> heap" where
  "upd_options p f h =
     (case options_at h p of
        None \<Rightarrow> h
      | Some ob \<Rightarrow> h\<lparr>options_at := (options_at h)(p \<mapsto> f ob)\<rparr>)"

definition upd_notice :: "nat \<Rightarrow> (notice_options \<Rightarrow> notice_options) \<Rightarrow> heap \<Rightarrow> heap" where
  "upd_notice q f h =
     (case notice_at h q of
        None \<Rightarrow> h
      | Some ob \<Rightarrow> h\<lparr>notice_at := (notice_at h)(q \<mapsto> f ob)\<rparr>)"

text \<open>\<open>options ??= {}\<close>: the argument is a reference, or \<open>None\<close> for \<open>null\<close> and \<open>undefined\<close>.\<close>

definition ensure_options :: "nat option \<Rightarrow> heap \<Rightarrow> nat \<times> heap" where
  "ensure_options arg h =
     (case arg of
        Some p \<Rightarrow> (p, h)
      | None \<Rightarrow>
          (next_ref h,
           h\<lparr>options_at := (options_at h)(next_ref h \<mapsto>
                \<lparr>coerce = None, onlyFirst = None, onlyBody = None, types = None, notice = None\<rparr>),
             next_ref := Suc (next_ref h)\<rparr>))"

text \<open>\<open>options.notice ??= {}\<close>\<close>

definition ensure_notice :: "nat \<Rightarrow> heap \<Rightarrow> heap" where
  "ensure_notice p h =
     (case options_at h p of
        None \<Rightarrow> h
      | Some ob \<Rightarrow>
          (case notice ob of
             Some q \<Rightarrow> h
           | None \<Rightarrow>
               h\<lparr>options_at := (options_at h)(p \<mapsto> ob\<lparr>notice := Some (next_ref h)\<rparr>),
                 notice_at := (notice_at h)(next_ref h \<mapsto> \<lparr>keys = None, all = None, inFooter = None\<rparr>),
                 next_ref := Suc (next_ref h)\<rparr>))"

text \<open>The first nine statements of \<open>buildChangelog\<close>, one assignment after the other.\<close>

definition fill_defaults :: "nat option \<Rightarrow> heap \<Rightarrow> nat \<times> heap" where
  "fill_defaults arg h0 =
     (let (p, h1) = ensure_options arg h0;
          h2 = upd_options p (\<lambda>ob. ob\<lparr>coerce := nullish_assign (coerce ob) True\<rparr>) h1;
          h3 = upd_options p (\<lambda>ob. ob\<lparr>onlyFirst := nullish_assign (onlyFirst ob) False\<rparr>) h2;
          h4 = upd_options p (\<lambda>ob. ob\<lparr>onlyBody := nullish_assign (onlyBody ob) False\<rparr>) h3;
          h5 = upd_options p (\<lambda>ob. ob\<lparr>types := nullish_assign (types ob) default_types\<rparr>) h4;
          h6 = ensure_notice p h5;
          q = (case options_at h6 p of None \<Rightarrow> None | Some ob \<Rightarrow> notice ob);
          h7 = (case q of None \<Rightarrow> h6 | Some r \<Rightarrow>
                  upd_notice r (\<lambda>n. n\<lparr>keys := nullish_assign (keys n) default_keys\<rparr>) h6);
          h8 = (case q of None \<Rightarrow> h7 | Some r \<Rightarrow>
                  upd_notice r (\<lambda>n. n\<lparr>all := nullish_assign (all n) False\<rparr>) h7);
          h9 = (case q of None \<Rightarrow> h8 | Some r \<Rightarrow>
                  upd_notice r (\<lambda>n. n\<lparr>inFooter := nullish_assign (inFooter n) True\<rparr>) h8)
      in (p, h9))"

subsection \<open>Rendering\<close>

text \<open>A condition on a boolean property that the defaults have set.\<close>

definition is_true :: "bool option \<Rightarrow> bool" where
  "is_true b = (b = Some True)"

text \<open>
  The notices of a release: for each bucket of its commits that counts, each commit and
  each label, \<open>notices[label] ??= []; notices[label] = [...notices[label], ...commitNotices]\<close>
  on the object \<open>notices\<close>, which starts as \<open>{}\<close>: for a label that the object inherits the
  spread throws.
\<close>

definition add_notices ::
  "(string \<Rightarrow> exn + re) \<Rightarrow> commit \<Rightarrow> (string \<times> string list) list \<Rightarrow> string \<times> check
   \<Rightarrow> exn + (string \<times> string list) list" where
  "add_notices new_RegExp c notices lc =
     (case getNotices new_RegExp c (fst lc) (Some (snd lc)) default_breakingLabel of
        Inl e \<Rightarrow> Inl e
      | Inr commitNotices \<Rightarrow>
          if commitNotices \<noteq> []
          then (case property_of notices (fst lc) of
                  Own ns \<Rightarrow> Inr (AList.update (fst lc) (ns @ commitNotices) notices)
                | Absent \<Rightarrow> Inr (AList.update (fst lc) commitNotices notices)
                | Inherited \<Rightarrow> Inl (TypeError ''notices[label] is not iterable''))
          else Inr notices)"

definition collect_notices ::
  "(string \<Rightarrow> exn + re) \<Rightarrow> options \<Rightarrow> notice_options \<Rightarrow> (string \<times> commit list) list
   \<Rightarrow> exn + (string \<times> string list) list" where
  "collect_notices new_RegExp ob n release_commits =
     foldE (\<lambda>notices tc.
         if is_true (all n) \<or> fst tc \<in> set (map fst (entries (types ob)))
         then foldE (\<lambda>notices' c. foldE (add_notices new_RegExp c) (entries (keys n)) notices')
                (snd tc) notices
         else Inr notices)
       release_commits []"

text \<open>The lines of the notices, the labels in the order of \<open>Object.entries(notices)\<close>.\<close>

definition notice_lines :: "(string \<times> string list) list \<Rightarrow> string list" where
  "notice_lines notices =
     concat (map (\<lambda>li. [''### '' @ fst li, []] @ map (\<lambda>item. ''- '' @ item) (snd li) @ [[]])
       (own_order notices))"

text \<open>\<open>commit.subject ?? commit.breaking ?? commit.header ?? commit.merge ?? commit?.revert?.header\<close>\<close>

definition display :: "commit \<Rightarrow> string option" where
  "display c =
     (case subject c of Some s \<Rightarrow> Some s | None \<Rightarrow>
      (case breaking c of Some s \<Rightarrow> Some s | None \<Rightarrow>
       (case commit.header c of Some s \<Rightarrow> Some s | None \<Rightarrow>
        (case merge c of Some s \<Rightarrow> Some s | None \<Rightarrow>
         (case revert c of None \<Rightarrow> None | Some r \<Rightarrow> revert.header r)))))"

definition scope_of :: "commit \<Rightarrow> string" where
  "scope_of c = (case scope c of None \<Rightarrow> [] | Some sc \<Rightarrow> sc)"

text \<open>
  \<open>scopes[commit?.scope ?? ''] ??= []; scopes[commit?.scope ?? ''].push(commit)\<close> on the
  object \<open>scopes\<close>, which starts as \<open>{}\<close>: for a scope that the object inherits the call of
  \<open>push\<close> throws.
\<close>

definition add_scope ::
  "(string \<times> commit list) list \<Rightarrow> commit \<Rightarrow> exn + (string \<times> commit list) list" where
  "add_scope scopes c =
     (case property_of scopes (scope_of c) of
        Own cs \<Rightarrow> Inr (AList.update (scope_of c) (cs @ [c]) scopes)
      | Absent \<Rightarrow> Inr (AList.update (scope_of c) [c] scopes)
      | Inherited \<Rightarrow> Inl (TypeError ''scopes[scope].push is not a function''))"

definition commit_line :: "string \<Rightarrow> commit \<Rightarrow> exn + string" where
  "commit_line sc c =
     (case display c of
        None \<Rightarrow> Inl (TypeError ''Cannot read properties of undefined'')
      | Some d \<Rightarrow> Inr ((if sc \<noteq> [] then ''  '' else []) @ ''- '' @ escapeHTML d))"

definition scope_lines :: "(string \<times> commit list) list \<Rightarrow> string \<Rightarrow> exn + string list" where
  "scope_lines scopes sc =
     (case mapE (commit_line sc) (case map_of scopes sc of None \<Rightarrow> [] | Some cs \<Rightarrow> cs) of
        Inl e \<Rightarrow> Inl e
      | Inr ls \<Rightarrow> Inr ((if sc \<noteq> [] then [''- '' @ sc] else []) @ ls))"

text \<open>
  One entry \<open>[type, title]\<close> of \<open>options.types\<close>. \<open>release.commits[type]\<close> is read from the
  object \<open>release.commits\<close>: for a type that the object has no own property of and
  inherits, the value is truthy and the loop over it throws. \<open>Object.keys(scopes).sort()\<close>
  compares the keys as strings.
\<close>

definition type_section :: "(string \<times> commit list) list \<Rightarrow> string \<times> string \<Rightarrow> exn + string list" where
  "type_section release_commits tt =
     (case property_of release_commits (fst tt) of
        Absent \<Rightarrow> Inr []
      | Inherited \<Rightarrow> Inl (TypeError ''release.commits[type] is not iterable'')
      | Own cs \<Rightarrow>
          (case foldE add_scope cs [] of
             Inl e \<Rightarrow> Inl e
           | Inr scopes \<Rightarrow>
               (case mapE (scope_lines scopes) (sort (map fst scopes)) of
                  Inl e \<Rightarrow> Inl e
                | Inr ls \<Rightarrow> Inr ([''### '' @ snd tt, []] @ concat ls @ [[]]))))"

text \<open>
  The lines that one turn of the loop over the releases pushes; \<open>Object.keys\<close> of a
  missing \<open>commits\<close> throws. \<open>semver.coerce\<close> in the template literal prints \<open>null\<close> where
  the version does not coerce.
\<close>

definition heading :: "options \<Rightarrow> string \<Rightarrow> release \<Rightarrow> string" where
  "heading ob v r =
     ''## ''
     @ (if is_true (coerce ob)
        then (case semver_coerce True v of None \<Rightarrow> ''null'' | Some sv \<Rightarrow> version sv)
        else v)
     @ (if truthy (date r) then '' ('' @ js_string (date r) @ '')'' else [])"

definition render_release ::
  "(string \<Rightarrow> exn + re) \<Rightarrow> options \<Rightarrow> notice_options \<Rightarrow> string \<Rightarrow> release \<Rightarrow> exn + string list" where
  "render_release new_RegExp ob n v r =
     (case commits r of
        None \<Rightarrow> Inl (TypeError ''Cannot convert undefined or null to object'')
      | Some cm \<Rightarrow>
          if cm = [] then Inr []
          else
            (case (if entries (keys n) \<noteq> [] then collect_notices new_RegExp ob n cm else Inr []) of
               Inl e \<Rightarrow> Inl e
             | Inr notices \<Rightarrow>
                 (case mapE (type_section cm) (entries (types ob)) of
                    Inl e \<Rightarrow> Inl e
                  | Inr secs \<Rightarrow>
                      Inr ((if is_true (onlyBody ob) then [] else [[], heading ob v r, []])
                           @ (if truthy (release.header r) then [js_string (release.header r), []] else [])
                           @ (if notice_lines notices \<noteq> [] \<and> \<not> is_true (inFooter n)
                              then [join [CHR 0x0A] (notice_lines notices), []] else [])
                           @ concat secs
                           @ (if notice_lines notices \<noteq> [] \<and> is_true (inFooter n)
                              then [join [CHR 0x0A] (notice_lines notices), []] else [])
                           @ (if truthy (release.footer r) then [js_string (release.footer r), []] else [])))))"

text \<open>The loop over \<open>Object.entries(releases)\<close> with its \<open>break\<close>.\<close>

fun render_releases ::
  "(string \<Rightarrow> exn + re) \<Rightarrow> options \<Rightarrow> notice_options \<Rightarrow> (string \<times> release) list
   \<Rightarrow> exn + string list" where
  "render_releases new_RegExp ob n [] = Inr []"
| "render_releases new_RegExp ob n (vr # others) =
     (case render_release new_RegExp ob n (fst vr) (snd vr) of
        Inl e \<Rightarrow> Inl e
      | Inr ls \<Rightarrow>
          if is_true (onlyFirst ob) then Inr ls
          else (case render_releases new_RegExp ob n others of
                  Inl e \<Rightarrow> Inl e
                | Inr ls' \<Rightarrow> Inr (ls @ ls')))"

text \<open>
  \<open>buildChangelog(releases, options)\<close>: the lines it returns or the exception it throws,
  and the store it leaves.
\<close>

definition buildChangelog ::
  "(string \<Rightarrow> exn + re) \<Rightarrow> (string \<times> release) list \<Rightarrow> nat option \<Rightarrow> heap
   \<Rightarrow> (exn + string list) \<times> heap" where
  "buildChangelog new_RegExp releases arg h0 =
     (let (p, h) = fill_defaults arg h0 in
      case options_at h p of
        None \<Rightarrow> (Inl (TypeError ''Cannot read properties of undefined''), h)
      | Some ob \<Rightarrow>
          (case (case notice ob of None \<Rightarrow> None | Some q \<Rightarrow> notice_at h q) of
             None \<Rightarrow> (Inl (TypeError ''Cannot read properties of undefined''), h)
           | Some n \<Rightarrow>
               (case render_releases new_RegExp ob n releases of
                  Inl e \<Rightarrow> (Inl e, h)
                | Inr ls \<Rightarrow>
                    (Inr ((if is_true (onlyBody ob) then [] else [''# Changelog'', []]) @ ls), h))))"


section \<open>What the properties are stated with\<close>

text \<open>
  The options object and the notice object after every \<open>??=\<close> of \<open>buildChangelog\<close> has
  run: a property that was set keeps its value, one that was not has its default.
\<close>

definition filled_options :: "options \<Rightarrow> nat \<Rightarrow> options" where
  "filled_options ob q =
     \<lparr>coerce = Some (case coerce ob of None \<Rightarrow> True | Some b \<Rightarrow> b),
      onlyFirst = Some (case onlyFirst ob of None \<Rightarrow> False | Some b \<Rightarrow> b),
      onlyBody = Some (case onlyBody ob of None \<Rightarrow> False | Some b \<Rightarrow> b),
      types = Some (case types ob of None \<Rightarrow> default_types | Some t \<Rightarrow> t),
      notice = Some q\<rparr>"

definition filled_notice :: "notice_options \<Rightarrow> notice_options" where
  "filled_notice n =
     \<lparr>keys = Some (case keys n of None \<Rightarrow> default_keys | Some k \<Rightarrow> k),
      all = Some (case all n of None \<Rightarrow> False | Some b \<Rightarrow> b),
      inFooter = Some (case inFooter n of None \<Rightarrow> True | Some b \<Rightarrow> b)\<rparr>"

subsection \<open>Concrete inputs\<close>

text \<open>
  \<open>new RegExp(pat)\<close> for a pattern without metacharacters, in which every character
  stands for itself; the slash is such a character.
\<close>

definition literal_RegExp :: "string \<Rightarrow> exn + re" where
  "literal_RegExp pat = Inr (Lit pat)"

definition bare_commit :: commit where
  "bare_commit = \<lparr>type = None, subType = None, scope = None, subject = None, header = None,
     body = None, footer = None, breaking = None, notes = [], merge = None, revert = None,
     orig = None, raw = None\<rparr>"

definition fix_commit :: commit where
  "fix_commit = bare_commit\<lparr>commit.type := Some ''fix'', subject := Some ''a bug''\<rparr>"

text \<open>The commits that \<open>getCommits\<close> makes of \<open>fix: a\<close> and \<open>feat: add b\<close>.\<close>

definition two_commits :: "commit list" where
  "two_commits =
     [\<lparr>type = Some ''fix'', subType = None, scope = None, subject = Some ''a'',
       header = Some ''fix: a'', body = None, footer = None, breaking = None, notes = [],
       merge = None, revert = None, orig = Some ''fix: a'', raw = Some ''fix: a''\<rparr>,
      \<lparr>type = Some ''feat'', subType = Some ''add'', scope = None, subject = Some ''add b'',
       header = Some ''feat: add b'', body = None, footer = None, breaking = None, notes = [],
       merge = None, revert = None, orig = Some ''feat: add b'', raw = Some ''feat: add b''\<rparr>]"

definition release_with :: "(string \<times> commit list) list \<Rightarrow> release" where
  "release_with cm = \<lparr>tag = None, name = None, date = None, description = None, header = None,
     footer = None, messages = None, commits = Some cm\<rparr>"

text \<open>A caller's options \<open>{ onlyFirst: true }\<close>, at reference 0.\<close>

definition only_first_options :: options where
  "only_first_options =
     \<lparr>coerce = None, onlyFirst = Some True, onlyBody = None, types = None, notice = None\<rparr>"

definition only_first_heap :: heap where
  "only_first_heap =
     \<lparr>options_at = [0 \<mapsto> only_first_options], notice_at = Map.empty, next_ref = 1\<rparr>"

text \<open>A caller's options \<open>{ coerce: false, notice: { all: true } }\<close>, at references 0 and 1.\<close>

definition partial_options :: options where
  "partial_options =
     \<lparr>coerce = Some False, onlyFirst = None, onlyBody = None, types = None, notice = Some 1\<rparr>"

definition partial_notice :: notice_options where
  "partial_notice = \<lparr>keys = None, all = Some True, inFooter = None\<rparr>"

definition partial_heap :: heap where
  "partial_heap =
     \<lparr>options_at = [0 \<mapsto> partial_options], notice_at = [1 \<mapsto> partial_notice], next_ref = 2\<rparr>"


text \<open>
  A condition on the capturing groups of an expression, for the proofs about captures:
  whatever the body of a group \<open>k\<close> consumes satisfies \<open>P k\<close>.
\<close>

fun groups_ok :: "(nat \<Rightarrow> string \<Rightarrow> bool) \<Rightarrow> re \<Rightarrow> bool" where
  "groups_ok P (Grp k a) =
     (groups_ok P a \<and>
      (\<forall>s s'. s' \<in> set (ends a s) \<longrightarrow> P k (take (length (rest s) - length (rest s')) (rest s))))"
| "groups_ok P (Seq a b) = (groups_ok P a \<and> groups_ok P b)"
| "groups_ok P (Alt a b) = (groups_ok P a \<and> groups_ok P b)"
| "groups_ok P (Opt a) = groups_ok P a"
| "groups_ok P (Star a) = groups_ok P a"
| "groups_ok P (Rep m n a) = groups_ok P a"
| "groups_ok P r = True"

definition feat_commit :: commit where
  "feat_commit = bare_commit\<lparr>commit.type := Some ''feat'', subject := Some ''a feature''\<rparr>"

text \<open>The releases 1.2.3, 1.2.4 and 1.3.0 of the specification's example.\<close>

definition three_releases :: "(string \<times> release) list" where
  "three_releases =
     [(''1.2.3'', release_with [(''fix'', [fix_commit])]),
      (''1.2.4'', release_with [(''feat'', [feat_commit]),
                               (''fix'', [fix_commit\<lparr>subject := Some ''b''\<rparr>])]),
      (''1.3.0'', release_with [(''feat'', [feat_commit])])]"


section \<open>Properties of the Version Locator\<close>

lemma mapE_fails:
  assumes "x \<in> set xs" and "f x = Inl e" and "\<forall>y \<in> set xs. \<forall>e'. f y = Inl e' \<longrightarrow> e' = e"
  shows "mapE f xs = Inl e"
  using assms
proof (induction xs)
  case Nil
  then show ?case by simp
next
  case (Cons y ys)
  show ?case
  proof (cases "f y")
    case (Inl e')
    with Cons.prems(3) have "e' = e" by simp
    with Inl show ?thesis by simp
  next
    case (Inr b)
    with Cons.prems have "x \<in> set ys" by auto
    from Cons.IH [OF this Cons.prems(2)] Cons.prems(3) have "mapE f ys = Inl e" by simp
    with Inr show ?thesis by simp
  qed
qed

text \<open>
  C1. The claim: an entry of \<open>versions\<close> that cannot be coerced is discarded and never
  causes an error. The code reads \<open>.version\<close> of the \<open>null\<close> that \<open>semver.coerce\<close> returns
  for such an entry, before \<open>filter(Boolean)\<close> can discard anything: every call that is
  well-formed otherwise and has such an entry throws a \<open>TypeError\<close>, as
  \<open>findPreviousVersion(['not-a-version', '1.0.0'], '1.0.0', 'PATCH')\<close> does.
\<close>

theorem findPreviousVersion_uncoercible_entry_throws:
  assumes "toUpperCase ty \<in> set [''MAJOR'', ''MINOR'', ''PATCH'']"
    and "semver_coerce True target \<noteq> None"
    and "v \<in> set versions" and "semver_coerce True v = None"
  shows "findPreviousVersion versions target ty = Inl (TypeError ''Cannot read properties of null'')"
proof -
  have "mapE coerced_version versions = Inl (TypeError ''Cannot read properties of null'')"
    using assms(3,4)
    by (intro mapE_fails [of v]) (auto simp: coerced_version_def split: option.splits)
  then show ?thesis
    using assms(1,2) by (auto simp: findPreviousVersion_def Let_def)
qed

theorem findPreviousVersion_uncoercible_entry_throws_witness:
  "toUpperCase ''PATCH'' \<in> set [''MAJOR'', ''MINOR'', ''PATCH'']
   \<and> semver_coerce True ''1.0.0'' \<noteq> None
   \<and> ''not-a-version'' \<in> set [''not-a-version'', ''1.0.0'']
   \<and> semver_coerce True ''not-a-version'' = None
   \<and> findPreviousVersion [''not-a-version'', ''1.0.0''] ''1.0.0'' ''PATCH''
       = Inl (TypeError ''Cannot read properties of null'')"
proof -
  have h1: "toUpperCase ''PATCH'' \<in> set [''MAJOR'', ''MINOR'', ''PATCH'']" by code_simp
  have h2: "semver_coerce True ''1.0.0'' \<noteq> None" by code_simp
  have h3: "''not-a-version'' \<in> set [''not-a-version'', ''1.0.0'']" by simp
  have h4: "semver_coerce True ''not-a-version'' = None" by code_simp
  show ?thesis
    using findPreviousVersion_uncoercible_entry_throws [OF h1 h2 h3 h4] h1 h2 h3 h4 by blast
qed

lemma findIndexE_none:
  "\<forall>x \<in> set xs. p x = Inr False \<Longrightarrow> findIndexE_from i p xs = Inr (-1)"
  by (induction xs arbitrary: i) simp_all

text \<open>
  C5. The claim: at PATCH granularity the result is the element before the target in
  the sorted sequence, and \<open>null\<close> when the target is the first element or is not found.
  When no element of the sorted sequence equals the target, \<open>findIndex\<close> returns \<open>-1\<close>,
  which is truthy, and the result is \<open>sortedVersions[-2]\<close>: \<open>undefined\<close>, not \<open>null\<close>,
  with or without the prefix \<open>v\<close>. The two examples of the claim evaluate as it says.
\<close>

theorem findPreviousVersion_patch_not_found_undefined:
  assumes "toUpperCase ty = ''PATCH''"
    and "semver_coerce True target = Some coercedVersion"
    and "mapE coerced_version versions = Inr coerced"
    and "sortE semver_compare (filter (\<lambda>v. v \<noteq> []) coerced) = Inr sortedVersions"
    and "\<forall>v \<in> set sortedVersions. semver_eq v (version coercedVersion) = Inr False"
  shows "findPreviousVersion versions target ty = Inr Undefined"
proof -
  have "findIndexE_from 0 (\<lambda>v. semver_eq v (version coercedVersion)) sortedVersions = Inr (-1)"
    using assms(5) by (rule findIndexE_none)
  then show ?thesis
    using assms(1-4) by (simp add: findPreviousVersion_def Let_def nth_js_def prefixed_def)
qed

theorem findPreviousVersion_patch_not_found_undefined_witness:
  "toUpperCase ''PATCH'' = ''PATCH''
   \<and> semver_coerce True ''2.0.0''
       = Some \<lparr>major = 2, minor = 0, patch = 0, prerelease = [], build = []\<rparr>
   \<and> mapE coerced_version [''1.0.0''] = Inr [''1.0.0'']
   \<and> sortE semver_compare (filter (\<lambda>v. v \<noteq> []) [''1.0.0'']) = Inr [''1.0.0'']
   \<and> semver_eq ''1.0.0'' ''2.0.0'' = Inr False
   \<and> findPreviousVersion [''1.0.0''] ''2.0.0'' ''PATCH'' = Inr Undefined
   \<and> findPreviousVersion [''0.0.0'', ''0.0.1'', ''0.0.2'', ''0.1.0''] ''0.1.0'' ''PATCH''
       = Inr (Str ''0.0.2'')
   \<and> findPreviousVersion [''0.0.0'', ''0.0.1'', ''0.0.2'', ''0.1.0''] ''0.0.0'' ''PATCH''
       = Inr Null"
proof -
  have h1: "toUpperCase ''PATCH'' = ''PATCH''" by code_simp
  have h2: "semver_coerce True ''2.0.0''
       = Some \<lparr>major = 2, minor = 0, patch = 0, prerelease = [], build = []\<rparr>"
    by code_simp
  have h3: "mapE coerced_version [''1.0.0''] = Inr [''1.0.0'']" by code_simp
  have h4: "sortE semver_compare (filter (\<lambda>v. v \<noteq> []) [''1.0.0'']) = Inr [''1.0.0'']"
    by code_simp
  have h5: "semver_eq ''1.0.0'' ''2.0.0'' = Inr False" by code_simp
  have v: "version \<lparr>major = 2, minor = 0, patch = 0, prerelease = [], build = []\<rparr> = ''2.0.0''"
    by code_simp
  have h6: "\<forall>v \<in> set [''1.0.0''].
      semver_eq v (version \<lparr>major = 2, minor = 0, patch = 0, prerelease = [], build = []\<rparr>)
        = Inr False"
    using h5 v by simp
  have e1: "findPreviousVersion [''0.0.0'', ''0.0.1'', ''0.0.2'', ''0.1.0''] ''0.1.0'' ''PATCH''
       = Inr (Str ''0.0.2'')"
    by code_simp
  have e2: "findPreviousVersion [''0.0.0'', ''0.0.1'', ''0.0.2'', ''0.1.0''] ''0.0.0'' ''PATCH''
       = Inr Null"
    by code_simp
  show ?thesis
    using findPreviousVersion_patch_not_found_undefined [OF h1 h2 h3 h4 h6] h1 h2 h3 h4 h5 e1 e2
    by blast
qed

section \<open>Properties of objects\<close>

text \<open>
  Enumerating an object in the order of its own keys changes neither its keys nor the
  values they have.
\<close>

lemma set_js_insert: "set (js_insert cmp x ys) = insert x (set ys)"
  by (induction ys) auto

lemma set_js_sort: "set (js_sort cmp xs) = set xs"
  by (induction xs) (simp_all add: js_sort_def set_js_insert)

lemma distinct_js_insert:
  "distinct (map fst (js_insert cmp x ys)) = (fst x \<notin> fst ` set ys \<and> distinct (map fst ys))"
  by (induction ys) (auto simp: set_js_insert)

lemma distinct_js_sort: "distinct (map fst (js_sort cmp xs)) = distinct (map fst xs)"
  by (induction xs) (simp_all add: js_sort_def distinct_js_insert set_js_sort [unfolded js_sort_def])

lemma set_own_order: "set (own_order kvs) = set kvs"
  by (auto simp: own_order_def set_js_sort)

lemma distinct_own_order:
  "distinct (map fst kvs) \<Longrightarrow> distinct (map fst (own_order kvs))"
  by (auto simp: own_order_def distinct_js_sort set_js_sort distinct_map_filter)

lemma map_of_own_order:
  "distinct (map fst kvs) \<Longrightarrow> map_of (own_order kvs) = map_of kvs"
  using map_of_inject_set [of "own_order kvs" kvs]
  by (simp add: distinct_own_order set_own_order)

section \<open>Properties of the Commit Grouper\<close>

text \<open>
  C2. The claim: the buckets of the grouping map come in the caller's type order, the
  types that the order does not list after all the listed ones. The comparator
  subtracts \<open>indexOf\<close> values, and \<open>indexOf\<close> is \<open>-1\<close> for an unlisted key, so unlisted keys
  come first: for the messages \<open>fix: a\<close> and \<open>feat: add b\<close> and the default types the key
  \<open>feat_add\<close>, which the list does not hold, precedes \<open>fix\<close>, which it does.
\<close>

theorem getCommits_unlisted_keys_first:
  "map fst (snd (getCommits [''fix: a'', ''feat: add b''] headerParser None validTypes))
     = [''feat_add'', ''fix'']"
  by code_simp

lemma bucket_Inr:
  "group_key c \<notin> set Object_prototype \<Longrightarrow>
   bucket groups c = Inr (AList.update (group_key c)
     ((case map_of groups (group_key c) of None \<Rightarrow> [] | Some cs \<Rightarrow> cs) @ [c]) groups)"
  by (simp add: bucket_def property_of_def split: option.splits)

lemma commits_loop_ok:
  assumes "mapE (process_message parse dt vt) (filter (\<lambda>x. x \<noteq> []) pre) = Inr cs"
    and "\<forall>c \<in> set cs. group_key c \<notin> set Object_prototype"
  shows "\<exists>gs. commits_loop parse dt vt (pre @ post) st
               = commits_loop parse dt vt post (fst st @ cs, gs)
           \<and> (distinct (map fst (snd st)) \<longrightarrow> distinct (map fst gs))
           \<and> (\<forall>k. map_of gs k =
                 (case map_of (snd st) k of
                    None \<Rightarrow> if filter (\<lambda>c. group_key c = k) cs = [] then None
                            else Some (filter (\<lambda>c. group_key c = k) cs)
                  | Some xs \<Rightarrow> Some (xs @ filter (\<lambda>c. group_key c = k) cs)))"
  using assms
proof (induction pre arbitrary: st cs)
  case Nil
  then show ?case by (intro exI [of _ "snd st"]) (auto split: option.splits)
next
  case (Cons x pre)
  show ?case
  proof (cases "x = []")
    case True
    then show ?thesis using Cons by simp
  next
    case False
    then obtain c cs' where c: "process_message parse dt vt x = Inr c"
      and cs': "mapE (process_message parse dt vt) (filter (\<lambda>x. x \<noteq> []) pre) = Inr cs'"
      and cs: "cs = c # cs'"
      using Cons.prems(1) by (auto split: sum.splits)
    let ?g1 = "AList.update (group_key c)
        ((case map_of (snd st) (group_key c) of None \<Rightarrow> [] | Some cs \<Rightarrow> cs) @ [c]) (snd st)"
    have b: "bucket (snd st) c = Inr ?g1"
      using Cons.prems(2) cs by (simp add: bucket_Inr)
    have ok: "\<forall>c \<in> set cs'. group_key c \<notin> set Object_prototype"
      using Cons.prems(2) cs by simp
    from Cons.IH [OF cs' ok, of "(fst st @ [c], ?g1)"]
    obtain gs where gs: "commits_loop parse dt vt (pre @ post) (fst st @ [c], ?g1)
               = commits_loop parse dt vt post ((fst st @ [c]) @ cs', gs)"
      and d: "distinct (map fst ?g1) \<longrightarrow> distinct (map fst gs)"
      and m: "\<And>k. map_of gs k =
                 (case map_of ?g1 k of
                    None \<Rightarrow> if filter (\<lambda>c. group_key c = k) cs' = [] then None
                            else Some (filter (\<lambda>c. group_key c = k) cs')
                  | Some xs \<Rightarrow> Some (xs @ filter (\<lambda>c. group_key c = k) cs'))"
      by auto
    have 1: "commits_loop parse dt vt ((x # pre) @ post) st
               = commits_loop parse dt vt post (fst st @ cs, gs)"
      using False c b gs cs by simp
    have 2: "distinct (map fst (snd st)) \<longrightarrow> distinct (map fst gs)"
      using d by (simp add: distinct_update)
    have 3: "map_of gs k =
                 (case map_of (snd st) k of
                    None \<Rightarrow> if filter (\<lambda>c. group_key c = k) cs = [] then None
                            else Some (filter (\<lambda>c. group_key c = k) cs)
                  | Some xs \<Rightarrow> Some (xs @ filter (\<lambda>c. group_key c = k) cs))" for k
      by (simp add: m update_conv' cs split: option.splits)
    show ?thesis using 1 2 3 by blast
  qed
qed

text \<open>
  C7. When the messages before \<open>m\<close> are processed without an exception, into the commits
  \<open>cs\<close>, and parsing or classifying \<open>m\<close> throws, \<open>getCommits\<close> returns: its commits are
  \<open>cs\<close>, its groups have one bucket for each key of a commit of \<open>cs\<close>, which holds the
  commits of \<open>cs\<close> with that key in their order, and no message after \<open>m\<close> has a part in
  the result. That the messages before \<open>m\<close> are processed without an exception includes
  the grouping: none of their commits has a key that \<open>groups\<close> inherits, for which the
  loop would have ended there.
\<close>

theorem getCommits_aborts_at_exception:
  assumes "mapE (process_message parse dt vt) (filter (\<lambda>x. x \<noteq> []) pre) = Inr cs"
    and "\<forall>c \<in> set cs. group_key c \<notin> set Object_prototype"
    and "m \<noteq> []"
    and "process_message parse dt vt m = Inl e"
  shows "fst (getCommits (pre @ m # post) parse dt vt) = cs
       \<and> distinct (map fst (snd (getCommits (pre @ m # post) parse dt vt)))
       \<and> (\<forall>k. map_of (snd (getCommits (pre @ m # post) parse dt vt)) k
              = (if filter (\<lambda>c. group_key c = k) cs = [] then None
                 else Some (filter (\<lambda>c. group_key c = k) cs)))"
proof -
  from commits_loop_ok [OF assms(1,2), of "m # post" "([], [])"]
  obtain gs where a: "commits_loop parse dt vt (pre @ m # post) ([], [])
               = commits_loop parse dt vt (m # post) (cs, gs)"
    and d: "distinct (map fst gs)"
    and l: "\<And>k. map_of gs k = (if filter (\<lambda>c. group_key c = k) cs = [] then None
                            else Some (filter (\<lambda>c. group_key c = k) cs))"
    by auto
  have b: "commits_loop parse dt vt (pre @ m # post) ([], []) = ((cs, gs), Some e)"
    using a assms(3,4) by simp
  have r: "getCommits (pre @ m # post) parse dt vt = (cs, own_order gs)"
    by (simp add: getCommits_def b)
  show ?thesis
    using d l by (simp add: r distinct_own_order map_of_own_order)
qed


theorem getCommits_aborts_at_exception_witness:
  "mapE (process_message headerParser None validTypes)
      (filter (\<lambda>x. x \<noteq> []) [''fix: a'', [], ''feat: add b'']) = Inr two_commits
   \<and> list_all (\<lambda>c. group_key c \<notin> set Object_prototype) two_commits
   \<and> ''  '' \<noteq> []
   \<and> process_message headerParser None validTypes ''  '' = Inl (TypeError ''Expected a raw commit'')
   \<and> fst (getCommits ([''fix: a'', [], ''feat: add b''] @ ''  '' # [''fix: c'']) headerParser None
        validTypes) = two_commits
   \<and> map_of (snd (getCommits ([''fix: a'', [], ''feat: add b''] @ ''  '' # [''fix: c''])
        headerParser None validTypes)) ''fix'' = Some [two_commits ! 0]
   \<and> map_of (snd (getCommits ([''fix: a'', [], ''feat: add b''] @ ''  '' # [''fix: c''])
        headerParser None validTypes)) ''feat_add'' = Some [two_commits ! 1]
   \<and> map_of (snd (getCommits ([''fix: a'', [], ''feat: add b''] @ ''  '' # [''fix: c''])
        headerParser None validTypes)) ''feat'' = None
   \<and> getCommits [''fix: a'', [], ''feat: add b'', ''  '', ''fix: c''] headerParser None validTypes
       = (two_commits, [(''fix'', [two_commits ! 0]), (''feat_add'', [two_commits ! 1])])"
proof -
  have h1: "mapE (process_message headerParser None validTypes)
      (filter (\<lambda>x. x \<noteq> []) [''fix: a'', [], ''feat: add b'']) = Inr two_commits"
    by code_simp
  have h2: "list_all (\<lambda>c. group_key c \<notin> set Object_prototype) two_commits"
    by code_simp
  have h3: "''  '' \<noteq> []" by simp
  have h4: "process_message headerParser None validTypes ''  ''
      = Inl (TypeError ''Expected a raw commit'')"
    by code_simp
  have k1: "filter (\<lambda>c. group_key c = ''fix'') two_commits = [two_commits ! 0]"
    by code_simp
  have k2: "filter (\<lambda>c. group_key c = ''feat_add'') two_commits = [two_commits ! 1]"
    by code_simp
  have k3: "filter (\<lambda>c. group_key c = ''feat'') two_commits = []"
    by code_simp
  have k4: "getCommits [''fix: a'', [], ''feat: add b'', ''  '', ''fix: c''] headerParser None validTypes
       = (two_commits, [(''fix'', [two_commits ! 0]), (''feat_add'', [two_commits ! 1])])"
    by code_simp
  note t = getCommits_aborts_at_exception [OF h1 h2 [unfolded list_all_iff] h3 h4, of "[''fix: c'']"]
  have a: "fst (getCommits ([''fix: a'', [], ''feat: add b''] @ ''  '' # [''fix: c'']) headerParser None
        validTypes) = two_commits"
    using t by blast
  have b: "map_of (snd (getCommits ([''fix: a'', [], ''feat: add b''] @ ''  '' # [''fix: c''])
        headerParser None validTypes)) k
      = (if filter (\<lambda>c. group_key c = k) two_commits = [] then None
         else Some (filter (\<lambda>c. group_key c = k) two_commits))" for k
    using t by blast
  show ?thesis
    using h1 h2 h3 h4 a k4 by (simp add: b k1 k2 k3)
qed

text \<open>
  The other exception of the loop: a commit whose key \<open>groups\<close> inherits ends the loop after
  it is pushed to \<open>commits\<close>, and it is in no group.
\<close>

lemma getCommits_aborts_at_inherited_key:
  assumes "mapE (process_message parse dt vt) (filter (\<lambda>x. x \<noteq> []) pre) = Inr cs"
    and "\<forall>c \<in> set cs. group_key c \<notin> set Object_prototype"
    and "m \<noteq> []"
    and "process_message parse dt vt m = Inr c"
    and "group_key c \<in> set Object_prototype"
  shows "fst (getCommits (pre @ m # post) parse dt vt) = cs @ [c]
       \<and> (\<forall>k. map_of (snd (getCommits (pre @ m # post) parse dt vt)) k
              = (if filter (\<lambda>c. group_key c = k) cs = [] then None
                 else Some (filter (\<lambda>c. group_key c = k) cs)))"
proof -
  from commits_loop_ok [OF assms(1,2), of "m # post" "([], [])"]
  obtain gs where a: "commits_loop parse dt vt (pre @ m # post) ([], [])
               = commits_loop parse dt vt (m # post) (cs, gs)"
    and d: "distinct (map fst gs)"
    and l: "\<And>k. map_of gs k = (if filter (\<lambda>c. group_key c = k) cs = [] then None
                            else Some (filter (\<lambda>c. group_key c = k) cs))"
    by auto
  have "filter (\<lambda>c'. group_key c' = group_key c) cs = []"
    using assms(2,5) by (auto simp: filter_empty_conv)
  then have "map_of gs (group_key c) = None"
    by (simp add: l)
  then have "bucket gs c = Inl (TypeError ''groups[key].push is not a function'')"
    using assms(5) by (simp add: bucket_def property_of_def)
  then have "commits_loop parse dt vt (pre @ m # post) ([], [])
      = ((cs @ [c], gs), Some (TypeError ''groups[key].push is not a function''))"
    using a assms(3,4) by simp
  then have "getCommits (pre @ m # post) parse dt vt = (cs @ [c], own_order gs)"
    by (simp add: getCommits_def)
  then show ?thesis
    using d l by (simp add: distinct_own_order map_of_own_order)
qed

section \<open>Properties of the Classifier\<close>

text \<open>
  C8. With \<open>forceType\<close> equal to \<open>feat\<close> the result of \<open>getMessageType\<close> on a message has the
  type \<open>feat\<close>, and its subtype is \<open>add\<close> when one of the ten add verbs starts the message,
  else \<open>remove\<close> when one of the five remove verbs does, else \<open>change\<close>: nothing else of
  the message, and neither the cascade nor \<open>defaultType\<close>, has a part in it.
\<close>

theorem getMessageType_forced_feat:
  "getMessageType (Some m) d (Some ''feat'') =
     Inr \<lparr>MessageTypeResult.type = ''feat'',
          MessageTypeResult.subType = Some (
            if \<exists>e \<in> set [stem ''add'' suffix, stem ''allow'' suffix, stem ''creat'' e_suffix,
                  stem ''enabl'' e_suffix, stem ''implement'' suffix, stem ''includ'' e_suffix,
                  stem ''incorporat'' e_suffix, stem ''install'' suffix,
                  stem ''introduc'' e_suffix, stem ''support'' suffix]. startsWith e m
            then ''add''
            else if \<exists>e \<in> set [stem ''delet'' e_suffix, stem ''deprecat'' e_suffix,
                  stem ''disabl'' e_suffix, stem ''remov'' e_suffix,
                  stem ''uninstall'' suffix]. startsWith e m
            then ''remove''
            else ''change'')\<rparr>"
  by (simp add: getMessageType_def feat_add_def feat_remove_def feat_def)

theorem getMessageType_forced_feat_witness:
  "getMessageType (Some ''Merge the branches'') None (Some ''feat'')
     = Inr \<lparr>MessageTypeResult.type = ''feat'', MessageTypeResult.subType = Some ''change''\<rparr>
   \<and> getMessageType (Some ''Merge the branches'') None None
     = Inr \<lparr>MessageTypeResult.type = ''merge'', MessageTypeResult.subType = None\<rparr>
   \<and> getMessageType (Some ''Removes the old API'') None (Some ''feat'')
     = Inr \<lparr>MessageTypeResult.type = ''feat'', MessageTypeResult.subType = Some ''remove''\<rparr>"
proof -
  have a: "\<not> (\<exists>e \<in> set [stem ''add'' suffix, stem ''allow'' suffix, stem ''creat'' e_suffix,
                  stem ''enabl'' e_suffix, stem ''implement'' suffix, stem ''includ'' e_suffix,
                  stem ''incorporat'' e_suffix, stem ''install'' suffix,
                  stem ''introduc'' e_suffix, stem ''support'' suffix].
             startsWith e ''Merge the branches'')"
    by code_simp
  have b: "\<not> (\<exists>e \<in> set [stem ''delet'' e_suffix, stem ''deprecat'' e_suffix,
                  stem ''disabl'' e_suffix, stem ''remov'' e_suffix,
                  stem ''uninstall'' suffix]. startsWith e ''Merge the branches'')"
    by code_simp
  have c: "getMessageType (Some ''Merge the branches'') None None
     = Inr \<lparr>MessageTypeResult.type = ''merge'', MessageTypeResult.subType = None\<rparr>"
    by code_simp
  have d: "\<not> (\<exists>e \<in> set [stem ''add'' suffix, stem ''allow'' suffix, stem ''creat'' e_suffix,
                  stem ''enabl'' e_suffix, stem ''implement'' suffix, stem ''includ'' e_suffix,
                  stem ''incorporat'' e_suffix, stem ''install'' suffix,
                  stem ''introduc'' e_suffix, stem ''support'' suffix].
             startsWith e ''Removes the old API'')"
    by code_simp
  have e: "\<exists>e \<in> set [stem ''delet'' e_suffix, stem ''deprecat'' e_suffix,
                  stem ''disabl'' e_suffix, stem ''remov'' e_suffix,
                  stem ''uninstall'' suffix]. startsWith e ''Removes the old API''"
    by code_simp
  show ?thesis
    using getMessageType_forced_feat [of "''Merge the branches''" None]
      getMessageType_forced_feat [of "''Removes the old API''" None] a b c d e
    by simp
qed

section \<open>Properties of the Notice Extractor\<close>

text \<open>
  C3. The claim: \<open>getNotices\<close> never throws, whatever the check, a pattern included. With
  a \<open>RegExp\<close> object as the check and a commit that has a note, the callback of \<open>filter\<close>
  calls \<open>check.startsWith\<close>, which a \<open>RegExp\<close> does not have: the call throws a
  \<open>TypeError\<close>. The default check of \<open>buildChangelog\<close> is such an object.
\<close>

theorem getNotices_pattern_check_throws:
  "getNotices new_RegExp (c\<lparr>notes := n # ns\<rparr>) label (Some (CRe r)) breakingLabel
     = Inl (TypeError ''check.startsWith is not a function'')"
  by (simp add: getNotices_def)

lemma notes_filter_literal:
  "\<not> (starts_with ''/'' k \<and> ends_with ''/'' k) \<Longrightarrow>
   notes_filter new_RegExp (CStr k) ns = Inr (filter (\<lambda>n. title n = k) ns)"
  by (induction ns) auto

text \<open>
  C6, as stated: with a string as the check a note is collected exactly when its title
  equals the check. At the first note the callback replaces a string that starts and
  ends with a slash by the pattern compiled from it and tests the title against the
  pattern: with the check \<open>/a/\<close> the note titled \<open>x/a/y\<close> is collected.
\<close>

theorem getNotices_slash_check_counterexample:
  "getNotices literal_RegExp (bare_commit\<lparr>notes := [\<lparr>title = ''x/a/y'', text = ''t''\<rparr>]\<rparr>)
      ''L'' (Some (CStr ''/a/'')) default_breakingLabel = Inr [''t'']
   \<and> ''x/a/y'' \<noteq> ''/a/''"
  by code_simp

text \<open>
  C6, amended: with a string as the check that does not both start and end with a
  slash, the notes collected are the notes whose title equals the check, in their
  order; when there is none the result is the breaking-change fallback or empty.
\<close>

theorem getNotices_literal_check:
  assumes "\<not> (starts_with ''/'' k \<and> ends_with ''/'' k)"
  shows "getNotices new_RegExp c label (Some (CStr k)) breakingLabel =
     Inr (if filter (\<lambda>n. title n = k) (notes c) \<noteq> []
          then map text (filter (\<lambda>n. title n = k) (notes c))
          else if label = breakingLabel \<and> truthy (breaking c) then [js_string (breaking c)]
          else [])"
  using assms by (simp add: getNotices_def notes_filter_literal)

theorem getNotices_literal_check_witness:
  "\<not> (starts_with ''/'' ''DEPRECATED'' \<and> ends_with ''/'' ''DEPRECATED'')
   \<and> getNotices literal_RegExp
        (bare_commit\<lparr>notes := [\<lparr>title = ''DEPRECATED'', text = ''old api''\<rparr>,
                               \<lparr>title = ''NOTE'', text = ''other''\<rparr>]\<rparr>)
        ''Deprecations'' (Some (CStr ''DEPRECATED'')) default_breakingLabel = Inr [''old api'']"
proof -
  have h: "\<not> (starts_with ''/'' ''DEPRECATED'' \<and> ends_with ''/'' ''DEPRECATED'')"
    by (simp add: starts_with_def)
  show ?thesis
    using h getNotices_literal_check [OF h, of literal_RegExp
      "bare_commit\<lparr>notes := [\<lparr>title = ''DEPRECATED'', text = ''old api''\<rparr>,
                               \<lparr>title = ''NOTE'', text = ''other''\<rparr>]\<rparr>" "''Deprecations''" default_breakingLabel]
    by simp
qed


section \<open>Properties of the Changelog Renderer\<close>

lemma fill_defaults_fresh_notice:
  assumes "options_at h p = Some ob" "notice ob = None"
  shows "fill_defaults (Some p) h =
     (p, h\<lparr>options_at := (options_at h)(p \<mapsto> filled_options ob (next_ref h)),
           notice_at := (notice_at h)(next_ref h \<mapsto>
              filled_notice \<lparr>keys = None, all = None, inFooter = None\<rparr>),
           next_ref := Suc (next_ref h)\<rparr>)"
  using assms
  by (cases ob) (simp add: fill_defaults_def ensure_options_def upd_options_def ensure_notice_def
      upd_notice_def nullish_assign_def filled_options_def filled_notice_def
      split: option.splits)

lemma fill_defaults_given_notice:
  assumes "options_at h p = Some ob" "notice ob = Some q" "notice_at h q = Some n"
  shows "fill_defaults (Some p) h =
     (p, h\<lparr>options_at := (options_at h)(p \<mapsto> filled_options ob q),
           notice_at := (notice_at h)(q \<mapsto> filled_notice n)\<rparr>)"
  using assms
  by (cases ob; cases n) (simp add: fill_defaults_def ensure_options_def upd_options_def ensure_notice_def
      upd_notice_def nullish_assign_def filled_options_def filled_notice_def
      split: option.splits)


lemma fill_defaults_dangling:
  assumes "options_at h p = Some ob" "notice ob = Some q" "notice_at h q = None"
  shows "fill_defaults (Some p) h =
     (p, h\<lparr>options_at := (options_at h)(p \<mapsto> filled_options ob q)\<rparr>)"
  using assms
  by (cases ob) (simp add: fill_defaults_def ensure_options_def upd_options_def ensure_notice_def
      upd_notice_def nullish_assign_def filled_options_def
      split: option.splits)

lemma fill_defaults_options:
  assumes "options_at h p = Some ob"
  shows "fst (fill_defaults (Some p) h) = p
     \<and> options_at (snd (fill_defaults (Some p) h)) p
         = Some (filled_options ob (case notice ob of None \<Rightarrow> next_ref h | Some q \<Rightarrow> q))"
proof (cases "notice ob")
  case None
  then show ?thesis using fill_defaults_fresh_notice [OF assms None] by simp
next
  case (Some q)
  show ?thesis
  proof (cases "notice_at h q")
    case None
    then show ?thesis using fill_defaults_dangling [OF assms Some None] Some by simp
  next
    case (Some n)
    then show ?thesis
      using fill_defaults_given_notice [OF assms \<open>notice ob = Some q\<close> Some] \<open>notice ob = Some q\<close>
      by simp
  qed
qed

lemma fill_defaults_frame:
  assumes "options_at h p = Some ob"
  shows "(p' \<noteq> p \<longrightarrow> options_at (snd (fill_defaults (Some p) h)) p' = options_at h p')
     \<and> (Some q' \<noteq> notice ob \<and> q' \<noteq> next_ref h \<longrightarrow>
         notice_at (snd (fill_defaults (Some p) h)) q' = notice_at h q')"
proof (cases "notice ob")
  case None
  then show ?thesis using fill_defaults_fresh_notice [OF assms None] by simp
next
  case (Some q)
  show ?thesis
  proof (cases "notice_at h q")
    case None
    then show ?thesis using fill_defaults_dangling [OF assms Some None] Some by simp
  next
    case (Some n)
    then show ?thesis
      using fill_defaults_given_notice [OF assms \<open>notice ob = Some q\<close> Some] \<open>notice ob = Some q\<close>
      by auto
  qed
qed

lemma buildChangelog_heap: "snd (buildChangelog R rs arg h) = snd (fill_defaults arg h)"
  by (simp add: buildChangelog_def split: prod.splits option.splits sum.splits)

lemma render_releases_onlyFirst:
  "is_true (onlyFirst ob) \<Longrightarrow>
   render_releases R ob n (vr # others) = render_release R ob n (fst vr) (snd vr)"
  by (simp split: sum.splits)

lemma render_release_no_commits:
  "commits r = Some [] \<Longrightarrow> render_release R ob n v r = Inr []"
  by (simp add: render_release_def)

text \<open>
  C10. \<open>buildChangelog\<close> assigns the defaults to the caller's options object, at the
  reference \<open>p\<close> it is called with: after the call, also one that throws, the object at
  \<open>p\<close> holds every property the caller had set and the default of every other one. Its
  \<open>notice\<close> is the caller's notice object, filled in the same way, or a new object of the
  defaults when the caller had none. No other options object changes, and no other
  notice object.
\<close>

theorem buildChangelog_fills_caller_options:
  assumes "options_at h p = Some ob"
  shows "(notice ob = None \<longrightarrow>
            options_at (snd (buildChangelog R rs (Some p) h)) p
              = Some (filled_options ob (next_ref h))
          \<and> notice_at (snd (buildChangelog R rs (Some p) h)) (next_ref h)
              = Some (filled_notice \<lparr>keys = None, all = None, inFooter = None\<rparr>))
       \<and> (\<forall>q n. notice ob = Some q \<and> notice_at h q = Some n \<longrightarrow>
            options_at (snd (buildChangelog R rs (Some p) h)) p = Some (filled_options ob q)
          \<and> notice_at (snd (buildChangelog R rs (Some p) h)) q = Some (filled_notice n))
       \<and> (\<forall>p'. p' \<noteq> p \<longrightarrow>
            options_at (snd (buildChangelog R rs (Some p) h)) p' = options_at h p')
       \<and> (\<forall>q'. Some q' \<noteq> notice ob \<and> q' \<noteq> next_ref h \<longrightarrow>
            notice_at (snd (buildChangelog R rs (Some p) h)) q' = notice_at h q')"
proof -
  have a: "notice ob = None \<longrightarrow>
            options_at (snd (fill_defaults (Some p) h)) p = Some (filled_options ob (next_ref h))
          \<and> notice_at (snd (fill_defaults (Some p) h)) (next_ref h)
              = Some (filled_notice \<lparr>keys = None, all = None, inFooter = None\<rparr>)"
    using fill_defaults_fresh_notice [OF assms] by simp
  have b: "\<forall>q n. notice ob = Some q \<and> notice_at h q = Some n \<longrightarrow>
            options_at (snd (fill_defaults (Some p) h)) p = Some (filled_options ob q)
          \<and> notice_at (snd (fill_defaults (Some p) h)) q = Some (filled_notice n)"
    using fill_defaults_given_notice [OF assms] by simp
  show ?thesis
    using a b fill_defaults_frame [OF assms] by (simp only: buildChangelog_heap) blast
qed

text \<open>
  C4, amended: with \<open>onlyFirst\<close> set, \<open>buildChangelog\<close> handles the first release of the map
  and no other: what it returns for a map, lines or exception, is what it returns for
  the map cut down to its first release. With \<open>q\<close> and \<open>n\<close> the caller's notice object, or
  the new one, the lines are the title, unless \<open>onlyBody\<close> is set, and then the lines of
  that first release: its sections when it has a commit bucket, and nothing when it has
  none, whatever releases follow.
\<close>

theorem buildChangelog_onlyFirst_first_release_only:
  assumes "options_at h p = Some ob" and "onlyFirst ob = Some True"
  shows "buildChangelog R (vr # others) (Some p) h = buildChangelog R [vr] (Some p) h
       \<and> (notice ob = None \<and> q = next_ref h \<and> n = \<lparr>keys = None, all = None, inFooter = None\<rparr>
            \<or> notice ob = Some q \<and> notice_at h q = Some n
          \<longrightarrow> fst (buildChangelog R (vr # others) (Some p) h)
                = (case render_release R (filled_options ob q) (filled_notice n) (fst vr) (snd vr) of
                     Inl e \<Rightarrow> Inl e
                   | Inr ls \<Rightarrow>
                       Inr ((if onlyBody ob = Some True then [] else [''# Changelog'', []]) @ ls))
              \<and> (commits (snd vr) = Some [] \<longrightarrow>
                   fst (buildChangelog R (vr # others) (Some p) h)
                     = Inr (if onlyBody ob = Some True then [] else [''# Changelog'', []])))"
proof -
  obtain h' where f: "fill_defaults (Some p) h = (p, h')"
    using fill_defaults_options [OF assms(1)] by (cases "fill_defaults (Some p) h") simp
  let ?ob = "filled_options ob (case notice ob of None \<Rightarrow> next_ref h | Some q \<Rightarrow> q)"
  have o: "options_at h' p = Some ?ob"
    using fill_defaults_options [OF assms(1)] f by simp
  have first: "is_true (onlyFirst ?ob)"
    using assms(2) by (simp add: is_true_def filled_options_def)
  have eq: "buildChangelog R (vr # others) (Some p) h = buildChangelog R [vr] (Some p) h"
    using first by (simp add: buildChangelog_def f o split: option.splits sum.splits)
  have pinned: "fst (buildChangelog R (vr # others) (Some p) h)
                = (case render_release R (filled_options ob q) (filled_notice n) (fst vr) (snd vr) of
                     Inl e \<Rightarrow> Inl e
                   | Inr ls \<Rightarrow>
                       Inr ((if onlyBody ob = Some True then [] else [''# Changelog'', []]) @ ls))"
    if n: "notice ob = None \<and> q = next_ref h \<and> n = \<lparr>keys = None, all = None, inFooter = None\<rparr>
            \<or> notice ob = Some q \<and> notice_at h q = Some n"
  proof -
    have q: "?ob = filled_options ob q"
      using n by auto
    have body: "is_true (onlyBody (filled_options ob q)) = (onlyBody ob = Some True)"
      by (auto simp: is_true_def filled_options_def split: option.splits)
    have first': "is_true (onlyFirst (filled_options ob q))"
      using first q by simp
    have "(case notice (filled_options ob q) of None \<Rightarrow> None | Some r \<Rightarrow> notice_at h' r)
        = Some (filled_notice n)"
      using n
    proof
      assume u: "notice ob = None \<and> q = next_ref h \<and> n = \<lparr>keys = None, all = None, inFooter = None\<rparr>"
      then show ?thesis
        using fill_defaults_fresh_notice [OF assms(1), of ] f by (auto simp: filled_options_def)
    next
      assume g: "notice ob = Some q \<and> notice_at h q = Some n"
      then show ?thesis
        using fill_defaults_given_notice [OF assms(1), of q n] f by (auto simp: filled_options_def)
    qed
    then show ?thesis
      using first' body o
      by (simp add: buildChangelog_def f q split: sum.splits)
  qed
  have empty: "fst (buildChangelog R (vr # others) (Some p) h)
                     = Inr (if onlyBody ob = Some True then [] else [''# Changelog'', []])"
    if n: "notice ob = None \<and> q = next_ref h \<and> n = \<lparr>keys = None, all = None, inFooter = None\<rparr>
            \<or> notice ob = Some q \<and> notice_at h q = Some n"
      and c: "commits (snd vr) = Some []"
    using pinned [OF n] c by (simp add: render_release_no_commits)
  show ?thesis using eq pinned empty by blast
qed

text \<open>
  C4, as stated: with \<open>onlyFirst\<close> set the output holds the sections of the first release
  that has a commit bucket. The \<open>break\<close> stands after the test for commit buckets, not
  inside it: for the releases 2.0.0, without a bucket, and 1.0.0, with a fix, the output
  is the title alone, without the section that 1.0.0 alone gives.
\<close>

theorem buildChangelog_onlyFirst_counterexample:
  "fst (buildChangelog literal_RegExp
          [(''2.0.0'', release_with []), (''1.0.0'', release_with [(''fix'', [fix_commit])])]
          (Some 0) only_first_heap) = Inr [''# Changelog'', []]
   \<and> fst (buildChangelog literal_RegExp
          [(''1.0.0'', release_with [(''fix'', [fix_commit])])]
          (Some 0) only_first_heap)
       = Inr [''# Changelog'', [], [], ''## 1.0.0'', [], ''### Fixed'', [], ''- a bug'', []]"
  by code_simp

theorem buildChangelog_onlyFirst_first_release_only_witness:
  "options_at only_first_heap 0 = Some only_first_options
   \<and> onlyFirst only_first_options = Some True
   \<and> notice only_first_options = None
   \<and> fst (buildChangelog literal_RegExp
        ((''1.0.0'', release_with [(''fix'', [fix_commit])])
         # [(''0.9.0'', release_with [(''fix'', [fix_commit\<lparr>subject := Some ''b''\<rparr>])])])
        (Some 0) only_first_heap)
       = Inr [''# Changelog'', [], [], ''## 1.0.0'', [], ''### Fixed'', [], ''- a bug'', []]
   \<and> buildChangelog literal_RegExp
        ((''1.0.0'', release_with [(''fix'', [fix_commit])])
         # [(''0.9.0'', release_with [(''fix'', [fix_commit\<lparr>subject := Some ''b''\<rparr>])])])
        (Some 0) only_first_heap
       = buildChangelog literal_RegExp [(''1.0.0'', release_with [(''fix'', [fix_commit])])]
           (Some 0) only_first_heap
   \<and> fst (buildChangelog literal_RegExp
        ((''2.0.0'', release_with []) # [(''1.0.0'', release_with [(''fix'', [fix_commit])])])
        (Some 0) only_first_heap) = Inr [''# Changelog'', []]"
proof -
  have h1: "options_at only_first_heap 0 = Some only_first_options"
    by (simp add: only_first_heap_def)
  have h2: "onlyFirst only_first_options = Some True"
    by (simp add: only_first_options_def)
  have h3: "notice only_first_options = None"
    by (simp add: only_first_options_def)
  have h4: "notice only_first_options = None \<and> (1::nat) = next_ref only_first_heap
      \<and> \<lparr>keys = None, all = None, inFooter = None\<rparr> = \<lparr>keys = None, all = None, inFooter = None\<rparr>
      \<or> notice only_first_options = Some 1
        \<and> notice_at only_first_heap 1 = Some \<lparr>keys = None, all = None, inFooter = None\<rparr>"
    by (simp add: only_first_options_def only_first_heap_def)
  have h5: "onlyBody only_first_options \<noteq> Some True"
    by (simp add: only_first_options_def)
  have r: "render_release literal_RegExp (filled_options only_first_options 1)
        (filled_notice \<lparr>keys = None, all = None, inFooter = None\<rparr>)
        (fst (''1.0.0'', release_with [(''fix'', [fix_commit])]))
        (snd (''1.0.0'', release_with [(''fix'', [fix_commit])]))
      = Inr [[], ''## 1.0.0'', [], ''### Fixed'', [], ''- a bug'', []]"
    by code_simp
  have c: "commits (snd (''2.0.0'', release_with [])) = Some []"
    by (simp add: release_with_def)
  note t1 = buildChangelog_onlyFirst_first_release_only [OF h1 h2, of literal_RegExp
        "(''1.0.0'', release_with [(''fix'', [fix_commit])])"
        "[(''0.9.0'', release_with [(''fix'', [fix_commit\<lparr>subject := Some ''b''\<rparr>])])]"
        1 "\<lparr>keys = None, all = None, inFooter = None\<rparr>"]
  note t2 = buildChangelog_onlyFirst_first_release_only [OF h1 h2, of literal_RegExp
        "(''2.0.0'', release_with [])" "[(''1.0.0'', release_with [(''fix'', [fix_commit])])]"
        1 "\<lparr>keys = None, all = None, inFooter = None\<rparr>"]
  have a: "fst (buildChangelog literal_RegExp
        ((''1.0.0'', release_with [(''fix'', [fix_commit])])
         # [(''0.9.0'', release_with [(''fix'', [fix_commit\<lparr>subject := Some ''b''\<rparr>])])])
        (Some 0) only_first_heap)
       = (case render_release literal_RegExp (filled_options only_first_options 1)
            (filled_notice \<lparr>keys = None, all = None, inFooter = None\<rparr>)
            (fst (''1.0.0'', release_with [(''fix'', [fix_commit])]))
            (snd (''1.0.0'', release_with [(''fix'', [fix_commit])])) of
            Inl e \<Rightarrow> Inl e
          | Inr ls \<Rightarrow>
              Inr ((if onlyBody only_first_options = Some True then [] else [''# Changelog'', []]) @ ls))"
    using t1 h4 by blast
  have a': "fst (buildChangelog literal_RegExp
        ((''1.0.0'', release_with [(''fix'', [fix_commit])])
         # [(''0.9.0'', release_with [(''fix'', [fix_commit\<lparr>subject := Some ''b''\<rparr>])])])
        (Some 0) only_first_heap)
       = Inr [''# Changelog'', [], [], ''## 1.0.0'', [], ''### Fixed'', [], ''- a bug'', []]"
    unfolding a r using h5 by simp
  have b: "buildChangelog literal_RegExp
        ((''1.0.0'', release_with [(''fix'', [fix_commit])])
         # [(''0.9.0'', release_with [(''fix'', [fix_commit\<lparr>subject := Some ''b''\<rparr>])])])
        (Some 0) only_first_heap
       = buildChangelog literal_RegExp [(''1.0.0'', release_with [(''fix'', [fix_commit])])]
           (Some 0) only_first_heap"
    using t1 by blast
  have e: "fst (buildChangelog literal_RegExp
        ((''2.0.0'', release_with []) # [(''1.0.0'', release_with [(''fix'', [fix_commit])])])
        (Some 0) only_first_heap)
       = Inr (if onlyBody only_first_options = Some True then [] else [''# Changelog'', []])"
    using t2 h4 c by blast
  have e': "fst (buildChangelog literal_RegExp
        ((''2.0.0'', release_with []) # [(''1.0.0'', release_with [(''fix'', [fix_commit])])])
        (Some 0) only_first_heap) = Inr [''# Changelog'', []]"
    using e h5 by simp
  show ?thesis
    using h1 h2 h3 a' b e' by blast
qed

theorem buildChangelog_fills_caller_options_witness:
  "options_at partial_heap 0 = Some partial_options
   \<and> options_at (snd (buildChangelog literal_RegExp [] (Some 0) partial_heap)) 0
       = Some \<lparr>coerce = Some False, onlyFirst = Some False, onlyBody = Some False,
               types = Some default_types, notice = Some 1\<rparr>
   \<and> notice_at (snd (buildChangelog literal_RegExp [] (Some 0) partial_heap)) 1
       = Some \<lparr>keys = Some default_keys, all = Some True, inFooter = Some True\<rparr>
   \<and> options_at only_first_heap 0 = Some only_first_options
   \<and> options_at (snd (buildChangelog literal_RegExp [] (Some 0) only_first_heap)) 0
       = Some \<lparr>coerce = Some True, onlyFirst = Some True, onlyBody = Some False,
               types = Some default_types, notice = Some 1\<rparr>
   \<and> notice_at (snd (buildChangelog literal_RegExp [] (Some 0) only_first_heap)) 1
       = Some \<lparr>keys = Some default_keys, all = Some False, inFooter = Some True\<rparr>"
proof -
  have h1: "options_at partial_heap 0 = Some partial_options"
    by (simp add: partial_heap_def)
  have h2: "notice partial_options = Some 1 \<and> notice_at partial_heap 1 = Some partial_notice"
    by (simp add: partial_heap_def partial_options_def)
  have h3: "filled_options partial_options 1
      = \<lparr>coerce = Some False, onlyFirst = Some False, onlyBody = Some False,
         types = Some default_types, notice = Some 1\<rparr>"
    by (simp add: filled_options_def partial_options_def)
  have h4: "filled_notice partial_notice
      = \<lparr>keys = Some default_keys, all = Some True, inFooter = Some True\<rparr>"
    by (simp add: filled_notice_def partial_notice_def)
  have k1: "options_at only_first_heap 0 = Some only_first_options"
    by (simp add: only_first_heap_def)
  have k2: "notice only_first_options = None \<and> next_ref only_first_heap = 1"
    by (simp add: only_first_heap_def only_first_options_def)
  have k3: "filled_options only_first_options 1
      = \<lparr>coerce = Some True, onlyFirst = Some True, onlyBody = Some False,
         types = Some default_types, notice = Some 1\<rparr>"
    by (simp add: filled_options_def only_first_options_def)
  have k4: "filled_notice \<lparr>keys = None, all = None, inFooter = None\<rparr>
      = \<lparr>keys = Some default_keys, all = Some False, inFooter = Some True\<rparr>"
    by (simp add: filled_notice_def)
  have a: "options_at (snd (buildChangelog literal_RegExp [] (Some 0) partial_heap)) 0
       = Some (filled_options partial_options 1)
     \<and> notice_at (snd (buildChangelog literal_RegExp [] (Some 0) partial_heap)) 1
       = Some (filled_notice partial_notice)"
    using buildChangelog_fills_caller_options [OF h1, of literal_RegExp "[]"] h2 by blast
  have b: "options_at (snd (buildChangelog literal_RegExp [] (Some 0) only_first_heap)) 0
       = Some (filled_options only_first_options 1)
     \<and> notice_at (snd (buildChangelog literal_RegExp [] (Some 0) only_first_heap)) 1
       = Some (filled_notice \<lparr>keys = None, all = None, inFooter = None\<rparr>)"
    using buildChangelog_fills_caller_options [OF k1, of literal_RegExp "[]"] k2 by simp
  show ?thesis
    using a b h1 h3 h4 k1 k3 k4 by simp
qed

text \<open>
  A scope, a notice label and a type of \<open>options.types\<close> that the objects \<open>scopes\<close>, \<open>notices\<close>
  and \<open>release.commits\<close> inherit make \<open>buildChangelog\<close> throw.
\<close>

lemma buildChangelog_inherited_names_throw:
  "fst (buildChangelog literal_RegExp
      [(''1.0.0'', release_with [(''fix'', [fix_commit\<lparr>scope := Some ''constructor''\<rparr>])])]
      (Some 0) only_first_heap) = Inl (TypeError ''scopes[scope].push is not a function'')"
  "fst (buildChangelog literal_RegExp
      [(''1.0.0'', release_with
          [(''fix'', [fix_commit\<lparr>notes := [\<lparr>title = ''NOTE'', text = ''x''\<rparr>]\<rparr>])])]
      (Some 0)
      \<lparr>options_at = [0 \<mapsto> only_first_options\<lparr>notice := Some 1\<rparr>],
       notice_at = [1 \<mapsto> \<lparr>keys = Some [(''toString'', CStr ''NOTE'')], all = None,
                                inFooter = None\<rparr>],
       next_ref = 2\<rparr>) = Inl (TypeError ''notices[label] is not iterable'')"
  "fst (buildChangelog literal_RegExp
      [(''1.0.0'', release_with [(''fix'', [fix_commit])])]
      (Some 0)
      \<lparr>options_at = [0 \<mapsto> only_first_options\<lparr>types := Some [(''valueOf'', ''Values'')]\<rparr>],
       notice_at = Map.empty, next_ref = 1\<rparr>)
     = Inl (TypeError ''release.commits[type] is not iterable'')"
  by code_simp+

section \<open>Properties of the Release Aggregator\<close>

subsection \<open>The matcher\<close>

lemma caps_advance [simp]: "caps (advance n s) = caps s"
  by (simp add: advance_def)

lemma rest_advance [simp]: "rest (advance n s) = drop n (rest s)"
  by (simp add: advance_def)

lemma ends_Seq: "s' \<in> set (ends (Seq a b) s) \<longleftrightarrow> (\<exists>s1 \<in> set (ends a s). s' \<in> set (ends b s1))"
  by (auto simp: ends.simps)

lemma ends_Star:
  "s' \<in> set (ends (Star a) s) \<longleftrightarrow>
     (s' = s \<or> (\<exists>s1 \<in> set (ends a s). length (rest s1) < length (rest s)
                  \<and> s' \<in> set (ends (Star a) s1)))"
  by (subst ends.simps) auto

lemma ends_Rep:
  "s' \<in> set (ends (Rep m n a) s) \<longleftrightarrow>
     (if n = 0 then s' = s
      else (m = 0 \<and> s' = s)
         \<or> (\<exists>s1 \<in> set (ends a s). s' \<in> set (ends (Rep (m - 1) (n - 1) a) s1)))"
  by (subst ends.simps) auto

lemma ends_Grp: "s' \<in> set (ends (Grp k a) s) \<longleftrightarrow> (\<exists>s1 \<in> set (ends a s). s' = set_cap k s s1)"
  by (auto simp: ends.simps)

lemma ends_Opt: "s' \<in> set (ends (Opt a) s) \<longleftrightarrow> (s' = s \<or> s' \<in> set (ends a s))"
  by (auto simp: ends.simps)

lemma ends_Alt: "s' \<in> set (ends (Alt a b) s) \<longleftrightarrow> (s' \<in> set (ends a s) \<or> s' \<in> set (ends b s))"
  by (auto simp: ends.simps)

lemma ends_Lit:
  "s' \<in> set (ends (Lit cs) s) \<longleftrightarrow> (starts_with cs (rest s) \<and> s' = advance (length cs) s)"
  by (auto simp: ends.simps)

lemma ends_Cls:
  "s' \<in> set (ends (Cls c) s) \<longleftrightarrow>
     (\<exists>x xs. rest s = x # xs \<and> cls_mem c x \<and> s' = advance 1 s)"
  by (cases "rest s") (auto simp: ends.simps)

lemma ends_anchor:
  "s' \<in> set (ends Bol s) \<longleftrightarrow> (prev s = None \<and> s' = s)"
  "s' \<in> set (ends Eol s) \<longleftrightarrow> (rest s = [] \<and> s' = s)"
  "s' \<in> set (ends WordB s) \<longleftrightarrow> (at_boundary s \<and> s' = s)"
  by (auto simp: ends.simps)

lemma ends_suffix:
  "s' \<in> set (ends r s) \<Longrightarrow> \<exists>u. rest s = u @ rest s'"
proof (induction r s arbitrary: s' rule: ends.induct)
  case (1 cs s)
  then have "rest s' = drop (length cs) (rest s)" by (simp add: ends_Lit)
  then show ?case by (metis append_take_drop_id)
next
  case (2 c s)
  then show ?case by (auto simp: ends_Cls)
next
  case (3 a b s)
  then obtain s1 where s1: "s1 \<in> set (ends a s)" "s' \<in> set (ends b s1)"
    by (auto simp: ends_Seq)
  from 3(1) [OF s1(1)] 3(2) [OF s1(1) s1(2)] show ?case by auto
next
  case (4 a b s)
  then show ?case by (auto simp: ends_Alt)
next
  case (5 a s)
  then show ?case by (auto simp: ends_Opt)
next
  case (6 a s)
  from 6(3) consider "s' = s"
    | s1 where "s1 \<in> set (ends a s)" "length (rest s1) < length (rest s)" "s' \<in> set (ends (Star a) s1)"
    by (subst (asm) ends_Star) blast
  then show ?case
  proof cases
    case 1
    then show ?thesis by simp
  next
    case 2
    have m: "s1 \<in> set (filter (\<lambda>s'. length (rest s') < length (rest s)) (ends a s))"
      using 2 by simp
    from 6(1) [OF 2(1)] 6(2) [OF m 2(3)] show ?thesis by auto
  qed
next
  case (7 m n a s)
  show ?case
  proof (cases "n = 0")
    case True
    then show ?thesis using 7(3) by (subst (asm) ends_Rep) simp
  next
    case False
    from 7(3) False consider "s' = s"
      | s1 where "s1 \<in> set (ends a s)" "s' \<in> set (ends (Rep (m - 1) (n - 1) a) s1)"
      by (subst (asm) ends_Rep) auto
    then show ?thesis
    proof cases
      case 1
      then show ?thesis by simp
    next
      case 2
      from 7(1) [OF False 2(1)] 7(2) [OF False 2(1) 2(2)] show ?thesis by auto
    qed
  qed
next
  case (8 k a s)
  then show ?case by (auto simp: ends_Grp set_cap_def)
next
  case (9 s)
  then show ?case by (simp add: ends_anchor)
next
  case (10 s)
  then show ?case by (simp add: ends_anchor)
next
  case (11 s)
  then show ?case by (simp add: ends_anchor)
qed

lemma ends_caps:
  "s' \<in> set (ends r s) \<Longrightarrow> groups_ok P r \<Longrightarrow>
   \<exists>new. caps s' = new @ caps s \<and> (\<forall>kx \<in> set new. P (fst kx) (snd kx))"
proof (induction r s arbitrary: s' rule: ends.induct)
  case (1 cs s)
  then show ?case by (simp add: ends_Lit)
next
  case (2 c s)
  then show ?case by (auto simp: ends_Cls)
next
  case (3 a b s)
  then obtain s1 where s1: "s1 \<in> set (ends a s)" "s' \<in> set (ends b s1)"
    by (auto simp: ends_Seq)
  from 3(4) have ok: "groups_ok P a" "groups_ok P b" by simp_all
  from 3(1) [OF s1(1) ok(1)] obtain n1 where
    n1: "caps s1 = n1 @ caps s" "\<forall>kx \<in> set n1. P (fst kx) (snd kx)" by blast
  from 3(2) [OF s1(1) s1(2) ok(2)] obtain n2 where
    n2: "caps s' = n2 @ caps s1" "\<forall>kx \<in> set n2. P (fst kx) (snd kx)" by blast
  show ?case
    using n1 n2 by (intro exI [of _ "n2 @ n1"]) auto
next
  case (4 a b s)
  then show ?case by (auto simp: ends_Alt)
next
  case (5 a s)
  then show ?case by (auto simp: ends_Opt)
next
  case (6 a s)
  from 6(4) have ok: "groups_ok P a" by simp
  from 6(3) consider "s' = s"
    | s1 where "s1 \<in> set (ends a s)" "length (rest s1) < length (rest s)" "s' \<in> set (ends (Star a) s1)"
    by (subst (asm) ends_Star) blast
  then show ?case
  proof cases
    case 1
    then show ?thesis by simp
  next
    case 2
    have m: "s1 \<in> set (filter (\<lambda>s'. length (rest s') < length (rest s)) (ends a s))"
      using 2 by simp
    from 6(1) [OF 2(1) ok] obtain n1 where
      n1: "caps s1 = n1 @ caps s" "\<forall>kx \<in> set n1. P (fst kx) (snd kx)" by blast
    from 6(2) [OF m 2(3) 6(4)] obtain n2 where
      n2: "caps s' = n2 @ caps s1" "\<forall>kx \<in> set n2. P (fst kx) (snd kx)" by blast
    show ?thesis
      using n1 n2 by (intro exI [of _ "n2 @ n1"]) auto
  qed
next
  case (7 m n a s)
  from 7(4) have ok: "groups_ok P a" and ok': "groups_ok P (Rep (m - 1) (n - 1) a)" by simp_all
  show ?case
  proof (cases "n = 0")
    case True
    then show ?thesis using 7(3) by (subst (asm) ends_Rep) simp
  next
    case False
    from 7(3) False consider "s' = s"
      | s1 where "s1 \<in> set (ends a s)" "s' \<in> set (ends (Rep (m - 1) (n - 1) a) s1)"
      by (subst (asm) ends_Rep) auto
    then show ?thesis
    proof cases
      case 1
      then show ?thesis by simp
    next
      case 2
      from 7(1) [OF False 2(1) ok] obtain n1 where
        n1: "caps s1 = n1 @ caps s" "\<forall>kx \<in> set n1. P (fst kx) (snd kx)" by blast
      from 7(2) [OF False 2(1) 2(2) ok'] obtain n2 where
        n2: "caps s' = n2 @ caps s1" "\<forall>kx \<in> set n2. P (fst kx) (snd kx)" by blast
      show ?thesis
        using n1 n2 by (intro exI [of _ "n2 @ n1"]) auto
    qed
  qed
next
  case (8 k a s)
  then obtain s1 where s1: "s1 \<in> set (ends a s)" "s' = set_cap k s s1"
    by (auto simp: ends_Grp)
  from 8(3) s1(1) have ok: "groups_ok P a"
    and p: "P k (take (length (rest s) - length (rest s1)) (rest s))"
    by auto
  from 8(1) [OF s1(1) ok] obtain n1 where
    n1: "caps s1 = n1 @ caps s" "\<forall>kx \<in> set n1. P (fst kx) (snd kx)" by blast
  show ?case
    using n1 p s1(2)
    by (intro exI [of _ "(k, take (length (rest s) - length (rest s1)) (rest s)) # n1"])
       (auto simp: set_cap_def)
next
  case (9 s)
  then show ?case by (simp add: ends_anchor)
next
  case (10 s)
  then show ?case by (simp add: ends_anchor)
next
  case (11 s)
  then show ?case by (simp add: ends_anchor)
qed

lemma ends_Rep_Cls:
  "s' \<in> set (ends (Rep m n (Cls c)) s) \<Longrightarrow> \<exists>u. rest s = u @ rest s' \<and> list_all (cls_mem c) u"
proof (induction n arbitrary: m s)
  case 0
  then show ?case by (subst (asm) ends_Rep) simp
next
  case (Suc n)
  from Suc.prems consider "s' = s"
    | s1 where "s1 \<in> set (ends (Cls c) s)" "s' \<in> set (ends (Rep (m - 1) n (Cls c)) s1)"
    by (subst (asm) ends_Rep) auto
  then show ?case
  proof cases
    case 1
    then show ?thesis by simp
  next
    case 2
    from 2(1) obtain x xs where x: "rest s = x # xs" "cls_mem c x" "rest s1 = xs"
      by (auto simp: ends_Cls)
    from Suc.IH [OF 2(2)] obtain u where u: "rest s1 = u @ rest s'" "list_all (cls_mem c) u"
      by blast
    show ?thesis
      using x u by (intro exI [of _ "x # u"]) simp
  qed
qed

lemma capture_Rep_Cls:
  assumes "s' \<in> set (ends (Rep m n (Cls c)) s)"
  shows "list_all (cls_mem c) (take (length (rest s) - length (rest s')) (rest s))"
proof -
  from ends_Rep_Cls [OF assms] obtain u where "rest s = u @ rest s'" "list_all (cls_mem c) u"
    by blast
  then show ?thesis by simp
qed

lemma capture_digits:
  assumes "s' \<in> set (ends (Rep m n (Cls CDigit)) s)"
  shows "list_all is_digit (take (length (rest s) - length (rest s')) (rest s))"
  using capture_Rep_Cls [OF assms] by (simp add: list_all_iff)

lemma search_ends:
  "search r p str = Some st \<Longrightarrow>
   \<exists>s0. caps s0 = [] \<and> (\<exists>u. str = u @ rest s0) \<and> st \<in> set (ends r s0)"
proof (induction str arbitrary: p)
  case Nil
  then show ?case
    by (cases "ends r \<lparr>prev = p, rest = [], caps = []\<rparr>")
       (auto intro!: exI [of _ "\<lparr>prev = p, rest = [], caps = []\<rparr>"])
next
  case (Cons x xs)
  show ?case
  proof (cases "ends r \<lparr>prev = p, rest = x # xs, caps = []\<rparr>")
    case Nil
    with Cons.prems have "search r (Some x) xs = Some st" by simp
    from Cons.IH [OF this] obtain s0 u where
      "caps s0 = []" "xs = u @ rest s0" "st \<in> set (ends r s0)" by blast
    then show ?thesis
      by (intro exI [of _ s0]) (auto intro: exI [of _ "x # u"])
  next
    case (Cons m ms)
    with Cons.prems have "st = m" by simp
    with Cons show ?thesis
      by (intro exI [of _ "\<lparr>prev = p, rest = x # xs, caps = []\<rparr>"]) auto
  qed
qed

lemma coerce_captures_digits:
  assumes "re_match COERCE v = Some m" and "m k = Some x" and "k \<noteq> 1"
  shows "list_all is_digit x"
proof -
  from assms(1) obtain st where st: "search COERCE None v = Some st" "m = map_of (caps st)"
    by (auto simp: re_match_def)
  from search_ends [OF st(1)] obtain s0 where
    s0: "caps s0 = []" "st \<in> set (ends COERCE s0)" by blast
  have ok: "groups_ok (\<lambda>k x. k = 1 \<or> list_all is_digit x) COERCE"
    by (auto simp: COERCE_def COERCEPLAIN_def intro: capture_digits)
  from ends_caps [OF s0(2) ok] s0(1)
  have "\<forall>kx \<in> set (caps st). fst kx = 1 \<or> list_all is_digit (snd kx)" by auto
  moreover have "(k, x) \<in> set (caps st)"
    using assms(2) st(2) by (auto dest: map_of_SomeD)
  ultimately show ?thesis using assms(3) by auto
qed

lemma full_no_prerelease:
  assumes "re_match FULL t = Some m" and "CHR ''-'' \<notin> set t"
  shows "m 4 = None"
proof -
  let ?P = "\<lambda>k (x::string). k \<noteq> (4::nat)"
  from assms(1) obtain st where st: "search FULL None t = Some st" "m = map_of (caps st)"
    by (auto simp: re_match_def)
  from search_ends [OF st(1)] obtain s0 u0 where
    s0: "caps s0 = []" "t = u0 @ rest s0" "st \<in> set (ends FULL s0)" by blast
  from s0(3) obtain s3 where
    s3: "s3 \<in> set (ends (seqs [Bol, Opt (Lit ''v''), MAINVERSION]) s0)"
    and r: "st \<in> set (ends (seqs [Opt (PRERELEASE 4), Opt (BUILD 5), Eol]) s3)"
    by (auto simp: FULL_def ends_Seq)
  have ok1: "groups_ok ?P (seqs [Bol, Opt (Lit ''v''), MAINVERSION])"
    by (simp add: MAINVERSION_def NUMERICIDENTIFIER_def)
  from ends_caps [OF s3 ok1] s0(1)
  have c3: "\<forall>kx \<in> set (caps s3). fst kx \<noteq> 4" by fastforce
  from ends_suffix [OF s3] s0(2) assms(2) have no: "CHR ''-'' \<notin> set (rest s3)" by auto
  have "ends (PRERELEASE 4) s3 = []"
  proof (rule ccontr)
    assume "ends (PRERELEASE 4) s3 \<noteq> []"
    then obtain s' where "s' \<in> set (ends (PRERELEASE 4) s3)" by (cases "ends (PRERELEASE 4) s3") auto
    then have "starts_with ''-'' (rest s3)"
      by (auto simp: PRERELEASE_def ends_Seq ends_Lit)
    then show False using no by (cases "rest s3") (auto simp: starts_with_def)
  qed
  with r have r': "st \<in> set (ends (seqs [Opt (BUILD 5), Eol]) s3)"
    by (auto simp: ends_Seq ends_Opt)
  have ok2: "groups_ok ?P (seqs [Opt (BUILD 5), Eol])"
    by (simp add: BUILD_def BUILDIDENTIFIER_def)
  from ends_caps [OF r' ok2] c3
  have "\<forall>kx \<in> set (caps st). fst kx \<noteq> 4" by fastforce
  then have "4 \<notin> fst ` set (caps st)" by fastforce
  then show ?thesis
    using st(2) by (simp add: map_of_eq_None_iff)
qed

subsection \<open>The commits of a group\<close>

lemma foldE_append:
  "foldE f (xs @ ys) s = (case foldE f xs s of Inl e \<Rightarrow> Inl e | Inr s' \<Rightarrow> foldE f ys s')"
  by (induction xs arbitrary: s) (auto split: sum.splits)

lemma foldE_Cons_Inr:
  "foldE f (x # xs) s = Inr s' \<Longrightarrow> \<exists>s1. f s x = Inr s1 \<and> foldE f xs s1 = Inr s'"
  by (auto split: sum.splits)

lemma push_commits_Inr:
  "push_commits acc tc = Inr acc' \<Longrightarrow>
   acc' = AList.update (fst tc)
     ((case map_of acc (fst tc) of None \<Rightarrow> [] | Some cs \<Rightarrow> cs) @ snd tc) acc"
  by (auto simp: push_commits_def property_of_def split: option.splits if_splits)

lemma push_commits_ok:
  "fst tc \<notin> set Object_prototype \<Longrightarrow> \<exists>acc'. push_commits acc tc = Inr acc'"
  by (simp add: push_commits_def property_of_def split: option.splits)

lemma foldE_push_commits_ok:
  "\<forall>tc \<in> set es. fst tc \<notin> set Object_prototype \<Longrightarrow> \<exists>acc'. foldE push_commits es acc = Inr acc'"
proof (induction es arbitrary: acc)
  case Nil
  then show ?case by simp
next
  case (Cons e es)
  then obtain acc1 where "push_commits acc e = Inr acc1"
    using push_commits_ok [of e acc] by auto
  then show ?case using Cons.IH [of acc1] Cons.prems by simp
qed

lemma map_of_foldE_push_commits:
  "foldE push_commits es acc = Inr acc' \<Longrightarrow>
   map_of acc' t =
     (case map_of acc t of
        None \<Rightarrow> if filter (\<lambda>tc. fst tc = t) es = [] then None
                else Some (concat (map snd (filter (\<lambda>tc. fst tc = t) es)))
      | Some cs \<Rightarrow> Some (cs @ concat (map snd (filter (\<lambda>tc. fst tc = t) es))))"
proof (induction es arbitrary: acc)
  case Nil
  then show ?case by (simp split: option.splits)
next
  case (Cons e es)
  from foldE_Cons_Inr [OF Cons.prems] obtain acc1
    where 1: "push_commits acc e = Inr acc1" and 2: "foldE push_commits es acc1 = Inr acc'"
    by blast
  show ?case
    by (simp add: Cons.IH [OF 2] push_commits_Inr [OF 1] update_conv' split: option.splits)
qed

lemma distinct_foldE_push_commits:
  "foldE push_commits es acc = Inr acc' \<Longrightarrow> distinct (map fst acc) \<Longrightarrow> distinct (map fst acc')"
proof (induction es arbitrary: acc)
  case Nil
  then show ?case by simp
next
  case (Cons e es)
  from foldE_Cons_Inr [OF Cons.prems(1)] obtain acc1
    where 1: "push_commits acc e = Inr acc1" and 2: "foldE push_commits es acc1 = Inr acc'"
    by blast
  have "distinct (map fst acc1)"
    using Cons.prems(2) by (simp add: push_commits_Inr [OF 1] distinct_update)
  then show ?case by (rule Cons.IH [OF 2])
qed

lemma group_step_skip: "group_of gb (fst vr) = None \<Longrightarrow> group_step gb acc vr = Inr acc"
  by (simp add: group_step_def)

lemma group_step_Inr:
  assumes "group_step gb acc vr = Inr acc1" and "group_of gb (fst vr) = Some g"
  shows "\<exists>grp. acc1 = AList.update g grp acc
     \<and> foldE push_commits (entries (commits (snd vr)))
           (case map_of acc g of None \<Rightarrow> [] | Some x \<Rightarrow> gcommits x) = Inr (gcommits grp)"
  using assms by (auto simp: group_step_def Let_def split: sum.splits option.splits)

lemma group_step_ok:
  assumes "group_of gb (fst vr) \<noteq> None \<longrightarrow>
     (\<forall>tc \<in> set (entries (commits (snd vr))). fst tc \<notin> set Object_prototype)"
  shows "\<exists>acc1. group_step gb acc vr = Inr acc1"
proof (cases "group_of gb (fst vr)")
  case None
  then show ?thesis by (simp add: group_step_skip)
next
  case (Some g)
  then have "\<forall>tc \<in> set (entries (commits (snd vr))). fst tc \<notin> set Object_prototype"
    using assms by simp
  from foldE_push_commits_ok [OF this]
  obtain cm where "foldE push_commits (entries (commits (snd vr)))
      (gcommits (case map_of acc g of
         None \<Rightarrow> \<lparr>gtag = g, gname = [], gdate = [], gmessages = [], gcommits = []\<rparr>
       | Some x \<Rightarrow> x)) = Inr cm"
    by blast
  then show ?thesis
    using Some by (simp add: group_step_def Let_def)
qed

lemma foldE_group_step_ok:
  "\<forall>vr \<in> set rs. group_of gb (fst vr) \<noteq> None \<longrightarrow>
     (\<forall>tc \<in> set (entries (commits (snd vr))). fst tc \<notin> set Object_prototype) \<Longrightarrow>
   \<exists>acc'. foldE (group_step gb) rs acc = Inr acc'"
proof (induction rs arbitrary: acc)
  case Nil
  then show ?case by simp
next
  case (Cons vr rs)
  then obtain acc1 where "group_step gb acc vr = Inr acc1"
    using group_step_ok [of gb vr acc] by auto
  then show ?case using Cons.IH [of acc1] Cons.prems by simp
qed

lemma distinct_group_step:
  "group_step gb acc vr = Inr acc1 \<Longrightarrow> distinct (map fst acc) \<Longrightarrow> distinct (map fst acc1)"
  by (cases "group_of gb (fst vr)")
     (auto simp: group_step_skip distinct_update dest: group_step_Inr)

lemma dom_group_step:
  "group_step gb acc vr = Inr acc1 \<Longrightarrow>
   dom (map_of acc1) = dom (map_of acc) \<union> {g. group_of gb (fst vr) = Some g}"
  by (cases "group_of gb (fst vr)")
     (auto simp: group_step_skip update_conv' dest!: group_step_Inr)

lemma distinct_foldE_group_step:
  "foldE (group_step gb) rs acc = Inr acc' \<Longrightarrow> distinct (map fst acc) \<Longrightarrow> distinct (map fst acc')"
proof (induction rs arbitrary: acc)
  case Nil
  then show ?case by simp
next
  case (Cons vr rs)
  from foldE_Cons_Inr [OF Cons.prems(1)] obtain acc1
    where 1: "group_step gb acc vr = Inr acc1" and 2: "foldE (group_step gb) rs acc1 = Inr acc'"
    by blast
  show ?case
    by (rule Cons.IH [OF 2]) (rule distinct_group_step [OF 1 Cons.prems(2)])
qed

lemma dom_foldE_group_step:
  "foldE (group_step gb) rs acc = Inr acc' \<Longrightarrow>
   dom (map_of acc') = dom (map_of acc) \<union> {g. \<exists>vr \<in> set rs. group_of gb (fst vr) = Some g}"
proof (induction rs arbitrary: acc)
  case Nil
  then show ?case by simp
next
  case (Cons vr rs)
  from foldE_Cons_Inr [OF Cons.prems] obtain acc1
    where 1: "group_step gb acc vr = Inr acc1" and 2: "foldE (group_step gb) rs acc1 = Inr acc'"
    by blast
  show ?case
    using Cons.IH [OF 2] dom_group_step [OF 1] by auto
qed

lemma foldE_group_step_commits:
  "foldE (group_step gb) rs acc = Inr acc' \<Longrightarrow> map_of acc' g = Some grp \<Longrightarrow>
   foldE push_commits
     (concat (map (\<lambda>vr. entries (commits (snd vr)))
        (filter (\<lambda>vr. group_of gb (fst vr) = Some g) rs)))
     (case map_of acc g of None \<Rightarrow> [] | Some x \<Rightarrow> gcommits x) = Inr (gcommits grp)"
proof (induction rs arbitrary: acc)
  case Nil
  then show ?case by simp
next
  case (Cons vr rs)
  from foldE_Cons_Inr [OF Cons.prems(1)] obtain acc1
    where 1: "group_step gb acc vr = Inr acc1" and 2: "foldE (group_step gb) rs acc1 = Inr acc'"
    by blast
  note ih = Cons.IH [OF 2 Cons.prems(2)]
  show ?case
  proof (cases "group_of gb (fst vr) = Some g")
    case True
    from group_step_Inr [OF 1 True] obtain x where x: "acc1 = AList.update g x acc"
      and c: "foldE push_commits (entries (commits (snd vr)))
           (case map_of acc g of None \<Rightarrow> [] | Some x \<Rightarrow> gcommits x) = Inr (gcommits x)"
      by blast
    have "(case map_of acc1 g of None \<Rightarrow> [] | Some x \<Rightarrow> gcommits x) = gcommits x"
      by (simp add: x update_conv')
    with ih c True show ?thesis by (simp add: foldE_append)
  next
    case False
    have "map_of acc1 g = map_of acc g"
    proof (cases "group_of gb (fst vr)")
      case None
      then show ?thesis using 1 by (simp add: group_step_skip)
    next
      case (Some g')
      with False have "g' \<noteq> g" by simp
      with group_step_Inr [OF 1 Some] show ?thesis by (auto simp: update_conv')
    qed
    with ih False show ?thesis by simp
  qed
qed

subsection \<open>The key of a release\<close>

lemma digit_not_special: "is_digit c \<Longrightarrow> c \<noteq> CHR ''-'' \<and> c \<noteq> CHR ''.''"
  by (auto simp: is_digit_def)

lemma is_digit_digit_char: "d < 10 \<Longrightarrow> is_digit (digit_char d)"
  by (simp add: is_digit_def digit_char_def less_eq_char_def)

lemma show_nat_acc_digits:
  "list_all is_digit acc \<Longrightarrow> list_all is_digit (show_nat_acc n acc)"
proof (induction n acc rule: show_nat_acc.induct)
  case (1 n acc)
  show ?case
  proof (cases "n < 10")
    case True
    then show ?thesis
      using 1(2) by (subst show_nat_acc.simps) (simp add: is_digit_digit_char)
  next
    case False
    have "list_all is_digit (digit_char (n mod 10) # acc)"
      using 1(2) by (simp add: is_digit_digit_char)
    from 1(1) [OF False this] False show ?thesis
      by (subst show_nat_acc.simps) simp
  qed
qed

lemma show_nat_digits: "list_all is_digit (show_nat n)"
  unfolding show_nat_def by (rule show_nat_acc_digits) simp

lemma no_dot_show_nat: "CHR ''.'' \<notin> set (show_nat n)"
  using show_nat_digits [of n] digit_not_special by (auto simp: list_all_iff)

lemma split_no_sep: "c \<notin> set xs \<Longrightarrow> split c xs = [xs]"
  by (induction xs) auto

lemma split_append: "c \<notin> set xs \<Longrightarrow> split c (xs @ c # ys) = xs # split c ys"
  by (induction xs) auto

lemma set_trim: "set (trim s) \<subseteq> set s"
  unfolding trim_def by (metis set_dropWhileD set_rev subsetI)

lemma coerce_False_prerelease:
  assumes "semver_coerce False v = Some sv"
  shows "prerelease sv = []"
proof -
  from assms obtain m ma where m: "re_match COERCE v = Some m" "m 2 = Some ma"
    and p: "semver_parse (ma @ ''.'' @ (case m 3 of None \<Rightarrow> ''0'' | Some x \<Rightarrow> x)
                 @ ''.'' @ (case m 4 of None \<Rightarrow> ''0'' | Some x \<Rightarrow> x)) = Some sv"
    by (auto simp: semver_coerce_def split: option.splits)
  let ?str = "ma @ ''.'' @ (case m 3 of None \<Rightarrow> ''0'' | Some x \<Rightarrow> x)
                 @ ''.'' @ (case m 4 of None \<Rightarrow> ''0'' | Some x \<Rightarrow> x)"
  have d2: "list_all is_digit ma"
    using coerce_captures_digits [OF m(1) m(2)] by simp
  have d3: "list_all is_digit (case m 3 of None \<Rightarrow> ''0'' | Some x \<Rightarrow> x)"
    using coerce_captures_digits [OF m(1), of 3] by (auto simp: is_digit_def split: option.splits)
  have d4: "list_all is_digit (case m 4 of None \<Rightarrow> ''0'' | Some x \<Rightarrow> x)"
    using coerce_captures_digits [OF m(1), of 4] by (auto simp: is_digit_def split: option.splits)
  have "CHR ''-'' \<notin> set ?str"
    using d2 d3 d4 digit_not_special by (auto simp: list_all_iff)
  then have no: "CHR ''-'' \<notin> set (trim ?str)"
    using set_trim [of ?str] by blast
  from p obtain m' where m': "re_match FULL (trim ?str) = Some m'"
    and pre: "prerelease sv = (case m' 4 of None \<Rightarrow> [] | Some p \<Rightarrow> map numberify (split CHR ''.'' p))"
    by (auto simp: semver_parse_def SemVer_new_def split: sum.splits option.splits if_splits)
  from full_no_prerelease [OF m' no] pre show ?thesis by simp
qed

lemma group_of_coerced:
  "group_of gb v =
     (case semver_coerce False v of
        None \<Rightarrow> None
      | Some sv \<Rightarrow> Some (if toLowerCase gb = ''major'' then show_nat (major sv)
                         else show_nat (major sv) @ ''.'' @ show_nat (minor sv)))"
proof (cases "semver_coerce False v")
  case None
  then show ?thesis by (simp add: group_of_def)
next
  case (Some sv)
  have v: "version sv = show_nat (major sv) @ CHR ''.'' # show_nat (minor sv) @ CHR ''.'' # show_nat (patch sv)"
    using coerce_False_prerelease [OF Some] by (simp add: version_def)
  have "split CHR ''.'' (version sv) = [show_nat (major sv), show_nat (minor sv), show_nat (patch sv)]"
    by (simp add: v split_append split_no_sep no_dot_show_nat)
  then show ?thesis
    using Some by (simp add: group_of_def)
qed

subsection \<open>The buckets\<close>

lemma map_of_map_snd:
  "map_of (map (\<lambda>kg. (fst kg, f (snd kg))) xs) k = map_option f (map_of xs k)"
  by (induction xs) auto

text \<open>
  C9. For a release map in which no release that has a bucket holds its commits under a
  type key that an object inherits (for such a key the function throws),
  \<open>groupReleases\<close> returns. Its buckets are the keys \<open>group_of\<close> gives to the releases, and
  a release has a key exactly when its tag coerces: the key is then the major and the
  minor component of the coerced version, joined by a dot, or the major component alone
  when grouping by major. In a bucket the commits of a type key are the commits that
  the releases of the bucket hold under that key, one release after the other in the
  order of the map; a type key that none of them holds is absent.
\<close>

theorem groupReleases_buckets:
  assumes "\<forall>vr \<in> set rs. group_of gb (fst vr) \<noteq> None \<longrightarrow>
     (\<forall>tc \<in> set (entries (commits (snd vr))). fst tc \<notin> set Object_prototype)"
  shows "(\<forall>v. group_of gb v =
           (case semver_coerce False v of
              None \<Rightarrow> None
            | Some sv \<Rightarrow> Some (if toLowerCase gb = ''major'' then show_nat (major sv)
                               else show_nat (major sv) @ ''.'' @ show_nat (minor sv))))
     \<and> (\<exists>gs. groupReleases rs gb = Inr gs
          \<and> fst ` set gs = {g. \<exists>vr \<in> set rs. group_of gb (fst vr) = Some g}
          \<and> (\<forall>g grp t. map_of gs g = Some grp \<longrightarrow>
                map_of (entries (commits grp)) t =
                  (let es = filter (\<lambda>tc. fst tc = t)
                         (concat (map (\<lambda>vr. entries (commits (snd vr)))
                            (filter (\<lambda>vr. group_of gb (fst vr) = Some g) rs)))
                   in if es = [] then None else Some (concat (map snd es)))))"
proof -
  from foldE_group_step_ok [OF assms] obtain acc where acc: "foldE (group_step gb) rs [] = Inr acc"
    by blast
  let ?gs = "own_order (map (\<lambda>kg. (fst kg, finish_group (snd kg))) acc)"
  have r: "groupReleases rs gb = Inr ?gs"
    by (simp add: groupReleases_def acc)
  have dist: "distinct (map fst acc)"
    using distinct_foldE_group_step [OF acc] by simp
  have keys: "fst ` set ?gs = {g. \<exists>vr \<in> set rs. group_of gb (fst vr) = Some g}"
  proof -
    have "fst ` set ?gs = fst ` set acc"
      by (simp add: set_own_order image_image)
    also have "\<dots> = dom (map_of acc)"
      by (simp add: dom_map_of_conv_image_fst)
    also have "\<dots> = {g. \<exists>vr \<in> set rs. group_of gb (fst vr) = Some g}"
      using dom_foldE_group_step [OF acc] by simp
    finally show ?thesis .
  qed
  have look: "map_of ?gs g = map_option finish_group (map_of acc g)" for g
  proof -
    have "distinct (map fst (map (\<lambda>kg. (fst kg, finish_group (snd kg))) acc))"
      using dist by (simp add: comp_def)
    then show ?thesis
      by (simp add: map_of_own_order map_of_map_snd)
  qed
  have buckets: "map_of (entries (commits grp)) t =
           (let es = filter (\<lambda>tc. fst tc = t)
                  (concat (map (\<lambda>vr. entries (commits (snd vr)))
                     (filter (\<lambda>vr. group_of gb (fst vr) = Some g) rs)))
            in if es = [] then None else Some (concat (map snd es)))"
    if l: "map_of ?gs g = Some grp" for g grp t
  proof -
    from l obtain x where x: "map_of acc g = Some x" and grp: "grp = finish_group x"
      by (auto simp: look)
    let ?es = "concat (map (\<lambda>vr. entries (commits (snd vr)))
                     (filter (\<lambda>vr. group_of gb (fst vr) = Some g) rs))"
    have c: "foldE push_commits ?es [] = Inr (gcommits x)"
      using foldE_group_step_commits [OF acc x] by simp
    have d: "distinct (map fst (gcommits x))"
      using distinct_foldE_push_commits [OF c] by simp
    have "map_of (entries (commits grp)) t = map_of (gcommits x) t"
      using d by (simp add: grp finish_group_def entries_def map_of_own_order)
    also have "\<dots> = (if filter (\<lambda>tc. fst tc = t) ?es = [] then None
                     else Some (concat (map snd (filter (\<lambda>tc. fst tc = t) ?es))))"
      using map_of_foldE_push_commits [OF c, of t] by simp
    finally show ?thesis by (simp add: Let_def)
  qed
  have key: "group_of gb v =
           (case semver_coerce False v of
              None \<Rightarrow> None
            | Some sv \<Rightarrow> Some (if toLowerCase gb = ''major'' then show_nat (major sv)
                               else show_nat (major sv) @ ''.'' @ show_nat (minor sv)))" for v
    by (rule group_of_coerced)
  have "\<exists>gs. groupReleases rs gb = Inr gs
          \<and> fst ` set gs = {g. \<exists>vr \<in> set rs. group_of gb (fst vr) = Some g}
          \<and> (\<forall>g grp t. map_of gs g = Some grp \<longrightarrow>
                map_of (entries (commits grp)) t =
                  (let es = filter (\<lambda>tc. fst tc = t)
                         (concat (map (\<lambda>vr. entries (commits (snd vr)))
                            (filter (\<lambda>vr. group_of gb (fst vr) = Some g) rs)))
                   in if es = [] then None else Some (concat (map snd es))))"
    using r keys buckets by blast
  with key show ?thesis by blast
qed




theorem groupReleases_buckets_witness:
  "list_all (\<lambda>vr. list_all (\<lambda>tc. fst tc \<notin> set Object_prototype) (entries (commits (snd vr))))
      three_releases
   \<and> (\<exists>gs. groupReleases three_releases ''minor'' = Inr gs
        \<and> fst ` set gs = {''1.2'', ''1.3''}
        \<and> map fst gs = [''1.2'', ''1.3'']
        \<and> (\<exists>grp. map_of gs ''1.2'' = Some grp
             \<and> map_of (entries (commits grp)) ''fix''
                 = Some [fix_commit, fix_commit\<lparr>subject := Some ''b''\<rparr>]
             \<and> map_of (entries (commits grp)) ''feat'' = Some [feat_commit]
             \<and> map_of (entries (commits grp)) ''docs'' = None))
   \<and> semver_coerce False ''invalid'' = None
   \<and> group_of ''minor'' ''invalid'' = None
   \<and> groupReleases [(''1.0.0'', release_with [(''constructor'', [fix_commit])])] ''minor''
       = Inl (TypeError ''groups[group].commits[type].push is not a function'')"
proof -
  have h: "list_all (\<lambda>vr. list_all (\<lambda>tc. fst tc \<notin> set Object_prototype)
      (entries (commits (snd vr)))) three_releases"
    by code_simp
  then have h': "\<forall>vr \<in> set three_releases. group_of ''minor'' (fst vr) \<noteq> None \<longrightarrow>
     (\<forall>tc \<in> set (entries (commits (snd vr))). fst tc \<notin> set Object_prototype)"
    by (simp add: list_all_iff)
  note t1 = groupReleases_buckets [OF h', THEN conjunct1]
  note t2 = groupReleases_buckets [OF h', THEN conjunct2]
  have g: "group_of ''minor'' ''1.2.3'' = Some ''1.2''" "group_of ''minor'' ''1.2.4'' = Some ''1.2''"
    "group_of ''minor'' ''1.3.0'' = Some ''1.3''"
    by code_simp+
  have ks: "{g. \<exists>vr \<in> set three_releases. group_of ''minor'' (fst vr) = Some g} = {''1.2'', ''1.3''}"
    by (auto simp: three_releases_def g)
  from t2 obtain gs where gs: "groupReleases three_releases ''minor'' = Inr gs"
    and a: "fst ` set gs = {g. \<exists>vr \<in> set three_releases. group_of ''minor'' (fst vr) = Some g}"
    and l0: "\<forall>g grp ty. map_of gs g = Some grp \<longrightarrow>
           map_of (entries (commits grp)) ty =
             (let es = filter (\<lambda>tc. fst tc = ty)
                    (concat (map (\<lambda>vr. entries (commits (snd vr)))
                       (filter (\<lambda>vr. group_of ''minor'' (fst vr) = Some g) three_releases)))
              in if es = [] then None else Some (concat (map snd es)))"
    by (elim exE conjE)
  have l: "map_of (entries (commits grp)) ty =
             (let es = filter (\<lambda>tc. fst tc = ty)
                    (concat (map (\<lambda>vr. entries (commits (snd vr)))
                       (filter (\<lambda>vr. group_of ''minor'' (fst vr) = Some g) three_releases)))
              in if es = [] then None else Some (concat (map snd es)))"
    if "map_of gs g = Some grp" for g grp ty
    using l0 [rule_format, OF that] .
  have a': "fst ` set gs = {''1.2'', ''1.3''}"
    using a ks by simp
  then have "''1.2'' \<in> fst ` set gs" by simp
  then obtain grp where grp: "map_of gs ''1.2'' = Some grp"
    by (metis map_of_eq_None_iff not_None_eq)
  have es: "concat (map (\<lambda>vr. entries (commits (snd vr)))
                     (filter (\<lambda>vr. group_of ''minor'' (fst vr) = Some ''1.2'') three_releases))
       = [(''fix'', [fix_commit]), (''feat'', [feat_commit]),
          (''fix'', [fix_commit\<lparr>subject := Some ''b''\<rparr>])]"
    by (simp add: three_releases_def g release_with_def entries_def)
  have c: "map_of (entries (commits grp)) ''fix'' = Some [fix_commit, fix_commit\<lparr>subject := Some ''b''\<rparr>]"
    "map_of (entries (commits grp)) ''feat'' = Some [feat_commit]"
    "map_of (entries (commits grp)) ''docs'' = None"
    by (simp_all add: l [OF grp] es)
  have i: "semver_coerce False ''invalid'' = None" by code_simp
  from t1 have "group_of ''minor'' ''invalid'' =
         (case semver_coerce False ''invalid'' of
            None \<Rightarrow> None
          | Some sv \<Rightarrow> Some (if toLowerCase ''minor'' = ''major'' then show_nat (major sv)
                             else show_nat (major sv) @ ''.'' @ show_nat (minor sv)))"
    by blast
  with i have b: "group_of ''minor'' ''invalid'' = None" by simp
  have "map fst (case groupReleases three_releases ''minor'' of Inl e \<Rightarrow> [] | Inr gs \<Rightarrow> gs)
      = [''1.2'', ''1.3'']"
    by code_simp
  then have d: "map fst gs = [''1.2'', ''1.3'']"
    by (simp add: gs)
  have e: "groupReleases [(''1.0.0'', release_with [(''constructor'', [fix_commit])])] ''minor''
       = Inl (TypeError ''groups[group].commits[type].push is not a function'')"
    by code_simp
  have x: "\<exists>grp. map_of gs ''1.2'' = Some grp
             \<and> map_of (entries (commits grp)) ''fix''
                 = Some [fix_commit, fix_commit\<lparr>subject := Some ''b''\<rparr>]
             \<and> map_of (entries (commits grp)) ''feat'' = Some [feat_commit]
             \<and> map_of (entries (commits grp)) ''docs'' = None"
    using grp c by (intro exI [of _ grp]) simp
  have y: "\<exists>gs. groupReleases three_releases ''minor'' = Inr gs
        \<and> fst ` set gs = {''1.2'', ''1.3''}
        \<and> map fst gs = [''1.2'', ''1.3'']
        \<and> (\<exists>grp. map_of gs ''1.2'' = Some grp
             \<and> map_of (entries (commits grp)) ''fix''
                 = Some [fix_commit, fix_commit\<lparr>subject := Some ''b''\<rparr>]
             \<and> map_of (entries (commits grp)) ''feat'' = Some [feat_commit]
             \<and> map_of (entries (commits grp)) ''docs'' = None)"
    by (rule exI [of _ gs]) (intro conjI gs a' d x)
  show ?thesis
    by (intro conjI h y i b e)
qed


end
